theory Spec2Isabelle
  imports Complex_Main "HOL-Library.Multiset" "HOL-Library.Log_Nat"
begin

section \<open>Data model of the timetable service\<close>

text \<open>
  The records follow the objects that \<open>AITimetableService\<close> reads and builds.
  Identifiers are the database keys (strings) and clock times are the strings
  the service stores. A JavaScript number is a double; a finite double is
  represented by the rational it denotes. The integer fields (days,
  capacities, student numbers, workload limits) are integers: the request
  validators of the service admit whole numbers only (a workload limit from 1
  to 60, a capacity from 1 to 1000), and such a number is a double exactly.
\<close>

record student =
  student_id :: string

record teacher =
  teacher_id :: string
  maxWorkload :: int

text \<open>
  \<open>maxStudents\<close> is optional on a course: the field can be missing
  (\<open>undefined\<close> when read), hold \<open>null\<close>, or hold a number.
\<close>

datatype maybe_int = Undefined | Null | Given int

record course =
  course_id :: string
  course_teacherId :: string
  course_creditHours :: int
  maxStudents :: maybe_int

record room =
  room_id :: string
  capacity :: int
  roomType :: string

text \<open>A slot is one gene: the assignment of a course to a teacher, a room and a period.\<close>

record slot =
  courseId :: string
  teacherId :: string
  roomId :: string
  dayOfWeek :: int
  startTime :: string
  endTime :: string
  creditHours :: int

text \<open>An entry of the already committed timetable, as far as the service reads it.\<close>

record existing =
  ex_teacherId :: string
  ex_dayOfWeek :: int
  ex_startTime :: string
  ex_endTime :: string

datatype conflict =
    TEACHER_CONFLICT slot slot
  | ROOM_CONFLICT slot slot
  | EXISTING_CONFLICT slot existing
  | WORKLOAD_EXCEEDED string rat int
  | CAPACITY_EXCEEDED slot course room

record individual =
  slots :: "slot list"
  conflicts :: "conflict list"
  fitness :: rat

record snapshot =
  students :: "student list"
  teachers :: "teacher list"
  courses :: "course list"
  rooms :: "room list"
  existingTimetables :: "existing list"

section \<open>Numbers\<close>

text \<open>
  Arithmetic on doubles (IEEE 754 binary64): every operation returns the exact
  result rounded to the nearest double, ties to the even significand.
  \<open>ilog2 x\<close> is the exponent of a positive \<open>x\<close>, the integer \<open>e\<close> with
  \<open>2^e \<le> x < 2^(e+1)\<close>; \<open>quantum x\<close> is the exponent of the last place of the
  doubles around \<open>x\<close> (53 significant bits, and no finer than \<open>2^-1074\<close>, the
  spacing of the subnormal numbers); \<open>double_of x\<close> is the double nearest to
  \<open>x\<close>. A numeric literal such as \<open>0.3\<close> is \<open>double_of (3 / 10)\<close>. Nothing here
  reaches \<open>2^1024\<close>, where a double would become infinite.
\<close>

definition round_half_even :: "rat \<Rightarrow> int" where
  "round_half_even y =
     (let n = \<lfloor>y\<rfloor>; r = y - of_int n
      in if r < 1 / 2 then n else if 1 / 2 < r then n + 1 else if even n then n else n + 1)"

definition ilog2 :: "rat \<Rightarrow> int" where
  "ilog2 x = (if 1 \<le> x then bitlen \<lfloor>x\<rfloor> - 1 else - bitlen (\<lceil>1 / x\<rceil> - 1))"

definition quantum :: "rat \<Rightarrow> int" where
  "quantum x = max (ilog2 \<bar>x\<bar> - 52) (- 1074)"

definition double_of :: "rat \<Rightarrow> rat" where
  "double_of x =
     (if x = 0 then 0
      else of_int (round_half_even (x / 2 powi quantum x)) * 2 powi quantum x)"

text \<open>The operators \<open>+\<close>, \<open>-\<close>, \<open>*\<close> and \<open>/\<close> on two doubles.\<close>

definition fl_add :: "rat \<Rightarrow> rat \<Rightarrow> rat" where
  "fl_add a b = double_of (a + b)"

definition fl_sub :: "rat \<Rightarrow> rat \<Rightarrow> rat" where
  "fl_sub a b = double_of (a - b)"

definition fl_mul :: "rat \<Rightarrow> rat \<Rightarrow> rat" where
  "fl_mul a b = double_of (a * b)"

definition fl_div :: "rat \<Rightarrow> rat \<Rightarrow> rat" where
  "fl_div a b = double_of (a / b)"

section \<open>Clock times\<close>

text \<open>
  \<open>moment(s, 'HH:mm')\<close> parses leniently. The hour is the first run of one or
  two digits found anywhere in the string; behind it the text up to and
  including the first colon is skipped, if there is a colon; the minute is the
  first run of one or two digits found in what is left, and 0 when there is
  none. So \<open>9:00\<close>, \<open>09:00\<close>, \<open>0900\<close> and \<open>9\<close> are all nine o'clock. The moment is
  invalid (\<open>None\<close>) when the string has no digit, when the hour is above 24 or
  the minute above 59, and for hour 24 with a minute other than 0. A valid
  moment is a point of the current day and is represented by its minutes
  after midnight, \<open>24:00\<close> being the end of the day; the day is taken to be
  the same for all moments of one evaluation, and without a change of the
  clocks.
\<close>

fun digit_val :: "char \<Rightarrow> nat option" where
  "digit_val c =
     map_of [(CHR ''0'', 0), (CHR ''1'', 1), (CHR ''2'', 2), (CHR ''3'', 3), (CHR ''4'', 4),
             (CHR ''5'', 5), (CHR ''6'', 6), (CHR ''7'', 7), (CHR ''8'', 8), (CHR ''9'', 9)] c"

text \<open>
  The first match of \<open>/\d\d?/\<close> in a string: the number matched and the rest of
  the string behind the match.
\<close>

fun match1to2 :: "string \<Rightarrow> (nat \<times> string) option" where
  "match1to2 [] = None"
| "match1to2 (c # cs) =
     (case digit_val c of
        None \<Rightarrow> match1to2 cs
      | Some x \<Rightarrow>
          (case cs of
             [] \<Rightarrow> Some (x, [])
           | d # ds \<Rightarrow>
               (case digit_val d of
                  None \<Rightarrow> Some (x, cs)
                | Some y \<Rightarrow> Some (10 * x + y, ds))))"

text \<open>The rest of a string behind its first colon, when it has one.\<close>

fun skip_colon :: "string \<Rightarrow> string option" where
  "skip_colon [] = None"
| "skip_colon (c # cs) = (if c = CHR '':'' then Some cs else skip_colon cs)"

definition moment_HHmm :: "string \<Rightarrow> nat option" where
  "moment_HHmm input =
     (case match1to2 input of
        None \<Rightarrow> None
      | Some (hour, string1) \<Rightarrow>
          (let string2 = (case skip_colon string1 of None \<Rightarrow> string1 | Some r \<Rightarrow> r);
               minute = (case match1to2 string2 of None \<Rightarrow> 0 | Some (m, _) \<Rightarrow> m)
           in if hour < 24 \<and> minute < 60 \<or> hour = 24 \<and> minute = 0
              then Some (60 * hour + minute) else None))"

text \<open>\<open>a.isBefore(b)\<close>: false as soon as one of the two moments is invalid.\<close>

fun isBefore :: "nat option \<Rightarrow> nat option \<Rightarrow> bool" where
  "isBefore (Some a) (Some b) = (a < b)"
| "isBefore _ _ = False"

definition timeOverlap :: "string \<Rightarrow> string \<Rightarrow> string \<Rightarrow> string \<Rightarrow> bool" where
  "timeOverlap start1 end1 start2 end2 =
     (let time1Start = moment_HHmm start1;
          time1End = moment_HHmm end1;
          time2Start = moment_HHmm start2;
          time2End = moment_HHmm end2
      in isBefore time1Start time2End \<and> isBefore time2Start time1End)"

section \<open>Teacher workloads\<close>

text \<open>
  A number that may be \<open>NaN\<close>: the difference of two moments is \<open>NaN\<close>
  when one of them is invalid, and \<open>NaN\<close> absorbs addition.
\<close>

datatype jsnum = Num rat | NaN

fun js_add :: "jsnum \<Rightarrow> jsnum \<Rightarrow> jsnum" where
  "js_add (Num a) (Num b) = Num (fl_add a b)"
| "js_add _ _ = NaN"

text \<open>
  \<open>a.diff(b, 'hours', true)\<close>: the difference of the two moments in
  milliseconds, an integer, divided by \<open>36e5\<close>; the quotient is not truncated.
\<close>

fun diff_hours :: "nat option \<Rightarrow> nat option \<Rightarrow> jsnum" where
  "diff_hours (Some a) (Some b) = Num (fl_div (of_int (60000 * (int a - int b))) 3600000)"
| "diff_hours _ _ = NaN"

text \<open>
  The \<open>workloads\<close> object is a table of own properties in insertion order.
  Assigning to an existing key keeps its place. Keys are database identifiers;
  names inherited from \<open>Object.prototype\<close> are not modelled.
\<close>

type_synonym 'v obj = "(string \<times> 'v) list"

fun obj_set :: "'v obj \<Rightarrow> string \<Rightarrow> 'v \<Rightarrow> 'v obj" where
  "obj_set [] k v = [(k, v)]"
| "obj_set ((k', v') # rest) k v =
     (if k' = k then (k, v) # rest else (k', v') # obj_set rest k v)"

fun digits_acc :: "int \<Rightarrow> string \<Rightarrow> int option" where
  "digits_acc acc [] = Some acc"
| "digits_acc acc (c # cs) =
     (case digit_val c of None \<Rightarrow> None | Some d \<Rightarrow> digits_acc (10 * acc + int d) cs)"

text \<open>
  A key is an array index when it is the canonical decimal form of an integer
  below \<open>2^32 - 1\<close>. \<open>Object.entries\<close> lists such keys first, in ascending
  numeric order, and then the other keys in insertion order.
\<close>

definition array_index :: "string \<Rightarrow> int option" where
  "array_index k =
     (case k of [] \<Rightarrow> None
      | c # cs \<Rightarrow>
          if c = CHR ''0'' \<and> cs \<noteq> [] then None
          else (case digits_acc 0 k of None \<Rightarrow> None
                | Some n \<Rightarrow> if n \<le> 4294967294 then Some n else None))"

definition index_key :: "string \<times> 'v \<Rightarrow> int" where
  "index_key kv = (case array_index (fst kv) of None \<Rightarrow> 0 | Some n \<Rightarrow> n)"

definition Object_entries :: "'v obj \<Rightarrow> (string \<times> 'v) list" where
  "Object_entries ob =
     sort_key index_key (filter (\<lambda>kv. array_index (fst kv) \<noteq> None) ob)
       @ filter (\<lambda>kv. array_index (fst kv) = None) ob"

definition add_duration :: "slot \<Rightarrow> jsnum obj \<Rightarrow> jsnum obj" where
  "add_duration sl workloads =
     (case map_of workloads (teacherId sl) of
        None \<Rightarrow> workloads
      | Some cur \<Rightarrow>
          (let duration = diff_hours (moment_HHmm (endTime sl)) (moment_HHmm (startTime sl))
           in obj_set workloads (teacherId sl) (js_add cur duration)))"

definition calculateTeacherWorkloads :: "slot list \<Rightarrow> teacher list \<Rightarrow> jsnum obj" where
  "calculateTeacherWorkloads sls ts =
     fold add_duration sls (fold (\<lambda>t workloads. obj_set workloads (teacher_id t) (Num 0)) ts [])"

section \<open>Fitness evaluation\<close>

text \<open>
  The evaluator threads the running fitness and the list of recorded conflicts
  through its loops; \<open>acc\<close> is that pair. Every \<open>fitness -= p\<close> is a
  subtraction of doubles. A \<open>maxStudents\<close> that is missing, \<open>null\<close> or 0 is
  falsy and ends the capacity check.
\<close>

type_synonym acc = "rat \<times> conflict list"

text \<open>The \<open>severity\<close> field of a recorded conflict.\<close>

fun severity :: "conflict \<Rightarrow> rat" where
  "severity (TEACHER_CONFLICT _ _) = double_of (8 / 10)"
| "severity (ROOM_CONFLICT _ _) = double_of (9 / 10)"
| "severity (EXISTING_CONFLICT _ _) = double_of (7 / 10)"
| "severity (WORKLOAD_EXCEEDED _ _ _) = double_of (6 / 10)"
| "severity (CAPACITY_EXCEEDED _ _ _) = double_of (5 / 10)"

definition check_pair :: "slot \<Rightarrow> slot \<Rightarrow> acc \<Rightarrow> acc" where
  "check_pair slot1 slot2 a =
     (let a1 =
        (if teacherId slot1 = teacherId slot2 \<and> dayOfWeek slot1 = dayOfWeek slot2 \<and>
            timeOverlap (startTime slot1) (endTime slot1) (startTime slot2) (endTime slot2)
         then (fl_sub (fst a) (double_of (3 / 10)), snd a @ [TEACHER_CONFLICT slot1 slot2]) else a)
      in
        (if roomId slot1 = roomId slot2 \<and> dayOfWeek slot1 = dayOfWeek slot2 \<and>
            timeOverlap (startTime slot1) (endTime slot1) (startTime slot2) (endTime slot2)
         then (fl_sub (fst a1) (double_of (4 / 10)), snd a1 @ [ROOM_CONFLICT slot1 slot2])
         else a1))"

definition check_existing :: "slot \<Rightarrow> existing \<Rightarrow> acc \<Rightarrow> acc" where
  "check_existing sl ex a =
     (if teacherId sl = ex_teacherId ex \<and> dayOfWeek sl = ex_dayOfWeek ex \<and>
         timeOverlap (startTime sl) (endTime sl) (ex_startTime ex) (ex_endTime ex)
      then (fl_sub (fst a) (double_of (2 / 10)), snd a @ [EXISTING_CONFLICT sl ex]) else a)"

text \<open>
  The outer loop over \<open>i\<close>: the slot at \<open>i\<close> is checked against every later
  slot, then against every committed entry, before \<open>i\<close> advances.
\<close>

fun check_slots :: "slot list \<Rightarrow> existing list \<Rightarrow> acc \<Rightarrow> acc" where
  "check_slots [] exs a = a"
| "check_slots (sl # rest) exs a =
     check_slots rest exs (fold (check_existing sl) exs (fold (check_pair sl) rest a))"

definition check_workload :: "teacher list \<Rightarrow> string \<times> jsnum \<Rightarrow> acc \<Rightarrow> acc" where
  "check_workload ts entry a =
     (case find (\<lambda>t. teacher_id t = fst entry) ts of
        None \<Rightarrow> a
      | Some t \<Rightarrow>
          (case snd entry of
             NaN \<Rightarrow> a
           | Num workload \<Rightarrow>
               if workload > of_int (maxWorkload t)
               then (fl_sub (fst a)
                       (fl_mul (double_of (1 / 10)) (fl_sub workload (of_int (maxWorkload t)))),
                     snd a @ [WORKLOAD_EXCEEDED (fst entry) workload (maxWorkload t)])
               else a))"

definition check_capacity :: "course list \<Rightarrow> room list \<Rightarrow> slot \<Rightarrow> acc \<Rightarrow> acc" where
  "check_capacity cs rs sl a =
     (case find (\<lambda>c. course_id c = courseId sl) cs of
        None \<Rightarrow> a
      | Some c \<Rightarrow>
          (case find (\<lambda>r. room_id r = roomId sl) rs of
             None \<Rightarrow> a
           | Some r \<Rightarrow>
               (case maxStudents c of
                  Given m \<Rightarrow>
                    if m \<noteq> 0 \<and> m > capacity r
                    then (fl_sub (fst a) (double_of (1 / 10)), snd a @ [CAPACITY_EXCEEDED sl c r])
                    else a
                | _ \<Rightarrow> a)))"

definition fitness_acc :: "slot list \<Rightarrow> snapshot \<Rightarrow> acc" where
  "fitness_acc sls snap =
     (let a1 = check_slots sls (existingTimetables snap) (1, []);
          teacherWorkloads = calculateTeacherWorkloads sls (teachers snap);
          a2 = fold (check_workload (teachers snap)) (Object_entries teacherWorkloads) a1
      in fold (check_capacity (courses snap) (rooms snap)) sls a2)"

text \<open>
  \<open>calculateFitness\<close> stores the conflicts in the individual it was given and
  returns the clamped fitness; the model returns both.
\<close>

definition calculateFitness :: "individual \<Rightarrow> snapshot \<Rightarrow> individual \<times> rat" where
  "calculateFitness ind snap =
     (let a = fitness_acc (slots ind) snap
      in (ind\<lparr>conflicts := snd a\<rparr>, max 0 (fst a)))"

section \<open>Vocabulary of the fitness properties\<close>

text \<open>The \<open>type\<close> field of a recorded conflict.\<close>

fun conflict_type :: "conflict \<Rightarrow> string" where
  "conflict_type (TEACHER_CONFLICT _ _) = ''TEACHER_CONFLICT''"
| "conflict_type (ROOM_CONFLICT _ _) = ''ROOM_CONFLICT''"
| "conflict_type (EXISTING_CONFLICT _ _) = ''EXISTING_CONFLICT''"
| "conflict_type (WORKLOAD_EXCEEDED _ _ _) = ''WORKLOAD_EXCEEDED''"
| "conflict_type (CAPACITY_EXCEEDED _ _ _) = ''CAPACITY_EXCEEDED''"

text \<open>
  What recording a conflict costs: the double the evaluator subtracts with
  it. For an exceeded workload this is the product \<open>0.1 * (current - max)\<close>,
  both operations on doubles.
\<close>

fun penalty :: "conflict \<Rightarrow> rat" where
  "penalty (TEACHER_CONFLICT _ _) = double_of (3 / 10)"
| "penalty (ROOM_CONFLICT _ _) = double_of (4 / 10)"
| "penalty (EXISTING_CONFLICT _ _) = double_of (2 / 10)"
| "penalty (WORKLOAD_EXCEEDED _ current mx) =
     fl_mul (double_of (1 / 10)) (fl_sub current (of_int mx))"
| "penalty (CAPACITY_EXCEEDED _ _ _) = double_of (1 / 10)"

text \<open>
  The fitness left when the penalties of a list of conflicts are subtracted
  from \<open>start\<close> one after the other, in the order of the list. The order
  matters: subtraction of doubles rounds at every step.
\<close>

definition subtract_all :: "rat \<Rightarrow> conflict list \<Rightarrow> rat" where
  "subtract_all start cs = foldl fl_sub start (map penalty cs)"

text \<open>
  The three clash conditions in words: same teacher (or room), same day and
  overlapping periods; and a slot against a committed entry of the same teacher.
\<close>

definition teacher_clash :: "slot \<Rightarrow> slot \<Rightarrow> bool" where
  "teacher_clash s1 s2 \<longleftrightarrow>
     teacherId s1 = teacherId s2 \<and> dayOfWeek s1 = dayOfWeek s2 \<and>
     timeOverlap (startTime s1) (endTime s1) (startTime s2) (endTime s2)"

definition room_clash :: "slot \<Rightarrow> slot \<Rightarrow> bool" where
  "room_clash s1 s2 \<longleftrightarrow>
     roomId s1 = roomId s2 \<and> dayOfWeek s1 = dayOfWeek s2 \<and>
     timeOverlap (startTime s1) (endTime s1) (startTime s2) (endTime s2)"

definition existing_clash :: "slot \<Rightarrow> existing \<Rightarrow> bool" where
  "existing_clash s e \<longleftrightarrow>
     teacherId s = ex_teacherId e \<and> dayOfWeek s = ex_dayOfWeek e \<and>
     timeOverlap (startTime s) (endTime s) (ex_startTime e) (ex_endTime e)"

text \<open>The unordered pairs of positions \<open>i < j\<close> below \<open>n\<close>, in loop order.\<close>

definition index_pairs :: "nat \<Rightarrow> (nat \<times> nat) list" where
  "index_pairs n = concat (map (\<lambda>i. map (Pair i) [Suc i..<n]) [0..<n])"

text \<open>
  The conflicts each step of the evaluator appends, phase by phase, and the
  whole list \<open>recorded\<close> it leaves in the individual.
\<close>

definition pair_out :: "slot \<Rightarrow> slot \<Rightarrow> conflict list" where
  "pair_out s1 s2 =
     (if teacher_clash s1 s2 then [TEACHER_CONFLICT s1 s2] else []) @
     (if room_clash s1 s2 then [ROOM_CONFLICT s1 s2] else [])"

definition existing_out :: "slot \<Rightarrow> existing \<Rightarrow> conflict list" where
  "existing_out s e = (if existing_clash s e then [EXISTING_CONFLICT s e] else [])"

fun slots_out :: "slot list \<Rightarrow> existing list \<Rightarrow> conflict list" where
  "slots_out [] exs = []"
| "slots_out (s # rest) exs =
     concat (map (pair_out s) rest) @ concat (map (existing_out s) exs) @ slots_out rest exs"

definition workload_out :: "teacher list \<Rightarrow> string \<times> jsnum \<Rightarrow> conflict list" where
  "workload_out ts entry = snd (check_workload ts entry (0, []))"

definition capacity_out :: "course list \<Rightarrow> room list \<Rightarrow> slot \<Rightarrow> conflict list" where
  "capacity_out cs rs s = snd (check_capacity cs rs s (0, []))"

text \<open>
  A step emits a list when it appends it and subtracts the penalties of its
  members, in their order.
\<close>

definition emits :: "('x \<Rightarrow> acc \<Rightarrow> acc) \<Rightarrow> ('x \<Rightarrow> conflict list) \<Rightarrow> bool" where
  "emits step out \<longleftrightarrow>
     (\<forall>x a. step x a = (subtract_all (fst a) (out x), snd a @ out x))"

definition recorded :: "slot list \<Rightarrow> snapshot \<Rightarrow> conflict list" where
  "recorded sls snap =
     slots_out sls (existingTimetables snap) @
     concat (map (workload_out (teachers snap))
       (Object_entries (calculateTeacherWorkloads sls (teachers snap)))) @
     concat (map (capacity_out (courses snap) (rooms snap)) sls)"

text \<open>The pairs of an earlier with a later element of a list.\<close>

fun pairs_of :: "'a list \<Rightarrow> ('a \<times> 'a) list" where
  "pairs_of [] = []"
| "pairs_of (x # xs) = map (Pair x) xs @ pairs_of xs"

abbreviation has_type :: "string \<Rightarrow> conflict \<Rightarrow> bool" where
  "has_type ty \<equiv> (\<lambda>c. conflict_type c = ty)"

text \<open>
  Workload in words: the hours between start and end (the minutes between
  them divided by 60, as a double), summed over the slots of a teacher in
  slot order, starting from 0, every sum a sum of doubles. A slot has valid
  times when both clock strings parse.
\<close>

definition valid_times :: "slot \<Rightarrow> bool" where
  "valid_times s \<longleftrightarrow> moment_HHmm (startTime s) \<noteq> None \<and> moment_HHmm (endTime s) \<noteq> None"

definition minutes_of :: "string \<Rightarrow> int" where
  "minutes_of s = (case moment_HHmm s of None \<Rightarrow> 0 | Some m \<Rightarrow> int m)"

definition duration_hours :: "slot \<Rightarrow> rat" where
  "duration_hours s =
     double_of (of_int (minutes_of (endTime s) - minutes_of (startTime s)) / 60)"

definition workload :: "slot list \<Rightarrow> string \<Rightarrow> rat" where
  "workload sls tid = foldl fl_add 0 (map duration_hours (filter (\<lambda>s. teacherId s = tid) sls))"

definition exceeds_workload :: "slot list \<Rightarrow> teacher \<Rightarrow> bool" where
  "exceeds_workload sls t \<longleftrightarrow> workload sls (teacher_id t) > of_int (maxWorkload t)"

text \<open>
  The teachers in the order in which \<open>Object.entries\<close> lists their
  identifiers as keys of the workload table: first those whose identifier is
  an array index, by ascending number, then the others in list order.
\<close>

definition entries_order :: "teacher list \<Rightarrow> teacher list" where
  "entries_order ts =
     sort_key (\<lambda>t. index_key (teacher_id t, ())) (filter (\<lambda>t. array_index (teacher_id t) \<noteq> None) ts) @
     filter (\<lambda>t. array_index (teacher_id t) = None) ts"

section \<open>Suggestions\<close>

text \<open>The fixed catalog: the five weekdays and the five periods of a day.\<close>

definition days :: "int list" where
  "days = [1, 2, 3, 4, 5]"

definition timeSlots :: "(string \<times> string) list" where
  "timeSlots =
     [(''09:00'', ''10:30''), (''10:45'', ''12:15''), (''13:00'', ''14:30''),
      (''14:45'', ''16:15''), (''16:30'', ''18:00'')]"

record alternative =
  alt_dayOfWeek :: int
  alt_startTime :: string
  alt_endTime :: string

datatype suggestion =
    ROOM_CHANGE slot room
  | TIME_CHANGE slot "alternative list"

fun reason :: "suggestion \<Rightarrow> string" where
  "reason (ROOM_CHANGE _ _) = ''Capacity exceeded''"
| "reason (TIME_CHANGE _ _) = ''Conflict with another class''"

text \<open>\<open>hasConflict\<close>: some slot of the individual has the teacher of \<open>sl\<close>, the day, and overlaps the period.\<close>

definition hasConflict :: "slot \<Rightarrow> slot list \<Rightarrow> int \<Rightarrow> string \<times> string \<Rightarrow> bool" where
  "hasConflict sl allSlots day timeSlot =
     list_ex (\<lambda>s. teacherId s = teacherId sl \<and> dayOfWeek s = day \<and>
                  timeOverlap (startTime s) (endTime s) (fst timeSlot) (snd timeSlot)) allSlots"

definition try_timeSlot ::
  "slot \<Rightarrow> slot list \<Rightarrow> int \<Rightarrow> string \<times> string \<Rightarrow> alternative list \<Rightarrow> alternative list" where
  "try_timeSlot sl allSlots day timeSlot alternatives =
     (if \<not> hasConflict sl allSlots day timeSlot
      then alternatives @
             [\<lparr>alt_dayOfWeek = day, alt_startTime = fst timeSlot, alt_endTime = snd timeSlot\<rparr>]
      else alternatives)"

definition findAlternativeTimes :: "slot \<Rightarrow> slot list \<Rightarrow> alternative list" where
  "findAlternativeTimes sl allSlots =
     (let alternatives =
        fold (\<lambda>day alts. fold (try_timeSlot sl allSlots day) timeSlots alts) days []
      in take 3 alternatives)"

text \<open>
  \<open>capacity >= maxStudents\<close> as JavaScript compares a number with a field
  that may be missing or \<open>null\<close>: \<open>undefined\<close> converts to \<open>NaN\<close>, with
  which every comparison is false, and \<open>null\<close> converts to 0.
\<close>

fun ge_field :: "int \<Rightarrow> maybe_int \<Rightarrow> bool" where
  "ge_field n Undefined = False"
| "ge_field n Null = (n \<ge> 0)"
| "ge_field n (Given m) = (n \<ge> m)"

text \<open>The first loop of \<open>generateSuggestions\<close>.\<close>

fun room_change :: "room list \<Rightarrow> conflict \<Rightarrow> suggestion list \<Rightarrow> suggestion list" where
  "room_change rs (CAPACITY_EXCEEDED sl c r) suggestions =
     (let suitableRooms =
        filter (\<lambda>r. ge_field (capacity r) (maxStudents c) \<and> roomType r = ''CLASSROOM'') rs
      in case suitableRooms of
           [] \<Rightarrow> suggestions
         | best # _ \<Rightarrow> suggestions @ [ROOM_CHANGE sl best])"
| "room_change rs _ suggestions = suggestions"

text \<open>The second loop: a time change for the first slot of a teacher or room conflict.\<close>

fun time_change :: "slot list \<Rightarrow> conflict \<Rightarrow> suggestion list \<Rightarrow> suggestion list" where
  "time_change allSlots (TEACHER_CONFLICT slot1 slot2) suggestions =
     suggestions @ [TIME_CHANGE slot1 (findAlternativeTimes slot1 allSlots)]"
| "time_change allSlots (ROOM_CONFLICT slot1 slot2) suggestions =
     suggestions @ [TIME_CHANGE slot1 (findAlternativeTimes slot1 allSlots)]"
| "time_change allSlots _ suggestions = suggestions"

definition generateSuggestions :: "individual \<Rightarrow> snapshot \<Rightarrow> suggestion list" where
  "generateSuggestions ind snap =
     fold (time_change (slots ind)) (conflicts ind)
       (fold (room_change (rooms snap)) (conflicts ind) [])"

section \<open>Vocabulary of the suggestion properties\<close>

text \<open>The catalog as one list of (day, period) pairs, days outermost.\<close>

definition catalog :: "(int \<times> string \<times> string) list" where
  "catalog = List.product days timeSlots"

text \<open>A catalog entry is free for a slot when no slot of its teacher in the individual overlaps it.\<close>

definition free_for :: "slot \<Rightarrow> slot list \<Rightarrow> int \<times> string \<times> string \<Rightarrow> bool" where
  "free_for sl allSlots e \<longleftrightarrow>
     \<not> list_ex (\<lambda>s. teacherId s = teacherId sl \<and> dayOfWeek s = fst e \<and>
                    timeOverlap (startTime s) (endTime s) (fst (snd e)) (snd (snd e))) allSlots"

definition as_alternative :: "int \<times> string \<times> string \<Rightarrow> alternative" where
  "as_alternative e =
     \<lparr>alt_dayOfWeek = fst e, alt_startTime = fst (snd e), alt_endTime = snd (snd e)\<rparr>"

text \<open>
  The number of students a room has to hold for a course: its
  \<open>maxStudents\<close>, 0 when that is \<open>null\<close>; with the field missing no room
  is suitable.
\<close>

fun students_to_hold :: "maybe_int \<Rightarrow> int option" where
  "students_to_hold Undefined = None"
| "students_to_hold Null = Some 0"
| "students_to_hold (Given m) = Some m"

text \<open>The first classroom that holds \<open>m\<close> students.\<close>

definition first_classroom :: "room list \<Rightarrow> int \<Rightarrow> room option" where
  "first_classroom rs m = find (\<lambda>r. roomType r = ''CLASSROOM'' \<and> capacity r \<ge> m) rs"

fun room_suggestions :: "room list \<Rightarrow> conflict \<Rightarrow> suggestion list" where
  "room_suggestions rs (CAPACITY_EXCEEDED sl c r) =
     (case students_to_hold (maxStudents c) of
        None \<Rightarrow> []
      | Some m \<Rightarrow> (case first_classroom rs m of None \<Rightarrow> [] | Some best \<Rightarrow> [ROOM_CHANGE sl best]))"
| "room_suggestions rs _ = []"

fun time_suggestions :: "slot list \<Rightarrow> conflict \<Rightarrow> suggestion list" where
  "time_suggestions allSlots (TEACHER_CONFLICT slot1 slot2) =
     [TIME_CHANGE slot1 (map as_alternative (take 3 (filter (free_for slot1 allSlots) catalog)))]"
| "time_suggestions allSlots (ROOM_CONFLICT slot1 slot2) =
     [TIME_CHANGE slot1 (map as_alternative (take 3 (filter (free_for slot1 allSlots) catalog)))]"
| "time_suggestions allSlots _ = []"

section \<open>Random draws\<close>

text \<open>
  \<open>Math.random()\<close> returns a number in the interval from 0 (included) to 1
  (excluded). A run reads its draws from an arbitrary sequence \<open>rnd\<close>, the
  draw at position \<open>pos\<close> being the fractional part of the element there; every
  operation returns the position after its last draw.
\<close>

type_synonym rng = "nat \<Rightarrow> rat"

definition Math_random :: "rng \<Rightarrow> nat \<Rightarrow> rat" where
  "Math_random rnd pos = rnd pos - of_int \<lfloor>rnd pos\<rfloor>"

text \<open>\<open>Math.floor(Math.random() * n)\<close>, an index below \<open>n\<close> when \<open>n\<close> is positive.\<close>

definition random_index :: "rng \<Rightarrow> nat \<Rightarrow> nat \<Rightarrow> nat" where
  "random_index rnd pos n = nat \<lfloor>Math_random rnd pos * of_nat n\<rfloor>"

text \<open>Reading an array at an index: \<open>None\<close> is \<open>undefined\<close>, past the end.\<close>

definition js_nth :: "'a list \<Rightarrow> nat \<Rightarrow> 'a option" where
  "js_nth xs i = (if i < length xs then Some (xs ! i) else None)"

section \<open>Errors\<close>

text \<open>
  A \<open>TypeError\<close> is what reading a property of \<open>undefined\<close> throws; \<open>Error\<close>
  carries the message of a \<open>new Error(...)\<close>.
\<close>

datatype error = TypeError | Error string

section \<open>Genetic operators\<close>

text \<open>
  \<open>generateRandomSlot\<close> draws a day, a period and a room, in this order. The
  day and period indices are below 5; the room read fails on an empty room list.
\<close>

definition generateRandomSlot ::
  "rng \<Rightarrow> nat \<Rightarrow> course \<Rightarrow> teacher \<Rightarrow> room list \<Rightarrow> error + (slot \<times> nat)" where
  "generateRandomSlot rnd pos c t rs =
     (let day = days ! random_index rnd pos (length days);
          timeSlot = timeSlots ! random_index rnd (pos + 1) (length timeSlots)
      in case js_nth rs (random_index rnd (pos + 2) (length rs)) of
           None \<Rightarrow> Inl TypeError
         | Some r \<Rightarrow>
             Inr (\<lparr>courseId = course_id c, teacherId = teacher_id t, roomId = room_id r,
                   dayOfWeek = day, startTime = fst timeSlot, endTime = snd timeSlot,
                   creditHours = course_creditHours c\<rparr>, pos + 3))"

text \<open>The inner loop of \<open>initializePopulation\<close>: one slot per course whose teacher is found.\<close>

fun random_slots ::
  "rng \<Rightarrow> snapshot \<Rightarrow> course list \<Rightarrow> slot list \<times> nat \<Rightarrow> error + (slot list \<times> nat)" where
  "random_slots rnd snap [] st = Inr st"
| "random_slots rnd snap (c # cs) st =
     (case find (\<lambda>t. teacher_id t = course_teacherId c) (teachers snap) of
        None \<Rightarrow> random_slots rnd snap cs st
      | Some t \<Rightarrow>
          (case generateRandomSlot rnd (snd st) c t (rooms snap) of
             Inl e \<Rightarrow> Inl e
           | Inr (sl, pos') \<Rightarrow> random_slots rnd snap cs (fst st @ [sl], pos')))"

fun initializePopulation ::
  "rng \<Rightarrow> nat \<Rightarrow> nat \<Rightarrow> snapshot \<Rightarrow> error + (individual list \<times> nat)" where
  "initializePopulation rnd pos 0 snap = Inr ([], pos)"
| "initializePopulation rnd pos (Suc n) snap =
     (case random_slots rnd snap (courses snap) ([], pos) of
        Inl e \<Rightarrow> Inl e
      | Inr (sls, pos') \<Rightarrow>
          (case initializePopulation rnd pos' n snap of
             Inl e \<Rightarrow> Inl e
           | Inr (population, pos'') \<Rightarrow>
               Inr (\<lparr>slots = sls, conflicts = [], fitness = 0\<rparr> # population, pos'')))"

text \<open>
  \<open>tournamentSelection\<close>: three draws, then the fittest of the three, the
  earlier one on a tie. Reading the fitness of a missing individual throws.
\<close>

definition tournamentSelection ::
  "rng \<Rightarrow> nat \<Rightarrow> individual list \<Rightarrow> error + (individual \<times> nat)" where
  "tournamentSelection rnd pos population =
     (let tournament =
        map (\<lambda>k. js_nth population (random_index rnd (pos + k) (length population))) [0, 1, 2]
      in case tournament of
           [Some a, Some b, Some c] \<Rightarrow>
             Inr (fold (\<lambda>current best. if fitness current > fitness best then current else best)
                    [b, c] a, pos + 3)
         | _ \<Rightarrow> Inl TypeError)"

text \<open>
  \<open>crossover\<close>: for every index below the longer parent, one of the two slots
  there when both exist (a draw below one half takes the first parent's), else
  the one that exists. A draw is made only where both exist.
\<close>

definition crossover_step ::
  "rng \<Rightarrow> individual \<Rightarrow> individual \<Rightarrow> nat \<Rightarrow> slot list \<times> nat \<Rightarrow> slot list \<times> nat" where
  "crossover_step rnd parent1 parent2 i st =
     (case js_nth (slots parent1) i of
        Some slot1 \<Rightarrow>
          (case js_nth (slots parent2) i of
             Some slot2 \<Rightarrow>
               (fst st @ [if Math_random rnd (snd st) < 1 / 2 then slot1 else slot2], snd st + 1)
           | None \<Rightarrow> (fst st @ [slot1], snd st))
      | None \<Rightarrow>
          (case js_nth (slots parent2) i of
             Some slot2 \<Rightarrow> (fst st @ [slot2], snd st)
           | None \<Rightarrow> st))"

definition crossover :: "rng \<Rightarrow> nat \<Rightarrow> individual \<Rightarrow> individual \<Rightarrow> individual \<times> nat" where
  "crossover rnd pos parent1 parent2 =
     (let st = fold (crossover_step rnd parent1 parent2)
                 [0..<max (length (slots parent1)) (length (slots parent2))] ([], pos)
      in (\<lparr>slots = fst st, conflicts = [], fitness = 0\<rparr>, snd st))"

text \<open>
  \<open>mutate\<close> works on a copy of the individual. One step of its loop: a draw;
  below 0.1 the course of the slot is looked up, then the teacher of that course
  (reading \<open>teacherId\<close> of a missing course throws), and the slot is replaced
  only when both were found.
\<close>

definition mutate_step ::
  "rng \<Rightarrow> snapshot \<Rightarrow> nat \<Rightarrow> slot list \<times> nat \<Rightarrow> error + (slot list \<times> nat)" where
  "mutate_step rnd snap i st =
     (if Math_random rnd (snd st) < 1 / 10 then
        (case find (\<lambda>c. course_id c = courseId (fst st ! i)) (courses snap) of
           None \<Rightarrow> Inl TypeError
         | Some c \<Rightarrow>
             (case find (\<lambda>t. teacher_id t = course_teacherId c) (teachers snap) of
                None \<Rightarrow> Inr (fst st, snd st + 1)
              | Some t \<Rightarrow>
                  (case generateRandomSlot rnd (snd st + 1) c t (rooms snap) of
                     Inl e \<Rightarrow> Inl e
                   | Inr (sl, pos') \<Rightarrow> Inr ((fst st)[i := sl], pos'))))
      else Inr (fst st, snd st + 1))"

fun mutate_loop ::
  "rng \<Rightarrow> snapshot \<Rightarrow> nat list \<Rightarrow> slot list \<times> nat \<Rightarrow> error + (slot list \<times> nat)" where
  "mutate_loop rnd snap [] st = Inr st"
| "mutate_loop rnd snap (i # is) st =
     (case mutate_step rnd snap i st of
        Inl e \<Rightarrow> Inl e
      | Inr st' \<Rightarrow> mutate_loop rnd snap is st')"

definition mutate :: "rng \<Rightarrow> nat \<Rightarrow> individual \<Rightarrow> snapshot \<Rightarrow> error + (individual \<times> nat)" where
  "mutate rnd pos ind snap =
     (case mutate_loop rnd snap [0..<length (slots ind)] (slots ind, pos) of
        Inl e \<Rightarrow> Inl e
      | Inr (sls, pos') \<Rightarrow> Inr (ind\<lparr>slots := sls\<rparr>, pos'))"

section \<open>Vocabulary of the operator properties\<close>

text \<open>A course is resolvable when its teacher is in the teacher list.\<close>

definition resolvable :: "snapshot \<Rightarrow> course \<Rightarrow> bool" where
  "resolvable snap c \<longleftrightarrow> find (\<lambda>t. teacher_id t = course_teacherId c) (teachers snap) \<noteq> None"

text \<open>
  The gene invariant: the slots of an individual are for the resolvable
  courses, one slot per course, in course order.
\<close>

definition one_gene_per_course :: "snapshot \<Rightarrow> individual \<Rightarrow> bool" where
  "one_gene_per_course snap ind \<longleftrightarrow>
     map courseId (slots ind) = map course_id (filter (resolvable snap) (courses snap))"

text \<open>The slot the child gets at index \<open>i\<close>, the first draw being at \<open>pos\<close>.\<close>

definition crossover_pick :: "rng \<Rightarrow> nat \<Rightarrow> slot list \<Rightarrow> slot list \<Rightarrow> nat \<Rightarrow> slot" where
  "crossover_pick rnd pos a b i =
     (if i < length a then
        (if i < length b then (if Math_random rnd (pos + i) < 1 / 2 then a ! i else b ! i)
         else a ! i)
      else b ! i)"

text \<open>The course identifiers of the resolvable courses, in course order.\<close>

definition known_ids :: "snapshot \<Rightarrow> string list" where
  "known_ids snap = map course_id (filter (resolvable snap) (courses snap))"

section \<open>Search driver\<close>

definition populationSize :: nat where
  "populationSize = 50"

definition generations :: nat where
  "generations = 100"

text \<open>\<open>Math.floor(populationSize * 0.2)\<close>, a product of doubles.\<close>

definition eliteCount :: nat where
  "eliteCount = nat \<lfloor>fl_mul (of_nat populationSize) (double_of (2 / 10))\<rfloor>"

text \<open>
  Evaluating an individual: \<open>calculateFitness\<close> stores the conflicts, and the
  copy made afterwards carries them together with the fitness.
\<close>

definition evaluate :: "snapshot \<Rightarrow> individual \<Rightarrow> individual" where
  "evaluate snap ind = (let r = calculateFitness ind snap in (fst r)\<lparr>fitness := snd r\<rparr>)"

text \<open>\<open>population.sort((a, b) => b.fitness - a.fitness)\<close>: a stable sort, fittest first.\<close>

definition sort_by_fitness :: "individual list \<Rightarrow> individual list" where
  "sort_by_fitness population = sort_key (\<lambda>a. - fitness a) population"

text \<open>
  The \<open>while\<close> loop that fills the new population: two tournaments, a
  crossover and a mutation for every offspring.
\<close>

function breed ::
  "rng \<Rightarrow> snapshot \<Rightarrow> individual list \<Rightarrow> individual list \<times> nat \<Rightarrow>
     error + (individual list \<times> nat)" where
  "breed rnd snap population st =
     (if length (fst st) < populationSize then
        (case tournamentSelection rnd (snd st) population of
           Inl e \<Rightarrow> Inl e
         | Inr (parent1, pos1) \<Rightarrow>
             (case tournamentSelection rnd pos1 population of
                Inl e \<Rightarrow> Inl e
              | Inr (parent2, pos2) \<Rightarrow>
                  (case mutate rnd (snd (crossover rnd pos2 parent1 parent2))
                          (fst (crossover rnd pos2 parent1 parent2)) snap of
                     Inl e \<Rightarrow> Inl e
                   | Inr (mutatedOffspring, pos4) \<Rightarrow>
                       breed rnd snap population (fst st @ [mutatedOffspring], pos4))))
      else Inr st)"
  by pat_completeness auto
termination
  by (relation "measure (\<lambda>(rnd, snap, population, st). populationSize - length (fst st))") auto

text \<open>
  The body of the generation loop either leaves the loop with the evaluated,
  sorted population (\<open>Break\<close>) or hands the next population on (\<open>Next\<close>).
  The test \<open>population[0].fitness >= this.conflictThreshold\<close> compares two
  doubles: the fitness the evaluator returned and the threshold.
\<close>

datatype 'a flow = Break 'a | Next 'a

definition generation_body ::
  "rng \<Rightarrow> snapshot \<Rightarrow> rat \<Rightarrow> individual list \<times> nat \<Rightarrow>
     error + (individual list \<times> nat) flow" where
  "generation_body rnd snap threshold st =
     (let population = sort_by_fitness (map (evaluate snap) (fst st))
      in case population of
           [] \<Rightarrow> Inl TypeError
         | best # _ \<Rightarrow>
             if fitness best \<ge> threshold then Inr (Break (population, snd st))
             else (case breed rnd snap population (take eliteCount population, snd st) of
                     Inl e \<Rightarrow> Inl e
                   | Inr st' \<Rightarrow> Inr (Next st')))"

function for_generations ::
  "rng \<Rightarrow> snapshot \<Rightarrow> rat \<Rightarrow> nat \<Rightarrow> individual list \<times> nat \<Rightarrow>
     error + (individual list \<times> nat)" where
  "for_generations rnd snap threshold generation st =
     (if generation < generations then
        (case generation_body rnd snap threshold st of
           Inl e \<Rightarrow> Inl e
         | Inr (Break st') \<Rightarrow> Inr st'
         | Inr (Next st') \<Rightarrow> for_generations rnd snap threshold (generation + 1) st')
      else Inr st)"
  by pat_completeness auto
termination
  by (relation "measure (\<lambda>(rnd, snap, threshold, generation, st). generations - generation)") auto

section \<open>The timetable artifact\<close>

record formatted_slot =
  fs_courseId :: string
  fs_teacherId :: string
  fs_roomId :: string
  fs_dayOfWeek :: int
  fs_startTime :: string
  fs_endTime :: string
  fs_course :: "course option"
  fs_teacher :: "teacher option"
  fs_room :: "room option"

record timetable =
  tt_semester :: int
  tt_academicYear :: string
  tt_slots :: "formatted_slot list"
  tt_conflicts :: "conflict list"
  tt_suggestions :: "suggestion list"
  tt_fitness :: rat

definition format_slot :: "snapshot \<Rightarrow> slot \<Rightarrow> formatted_slot" where
  "format_slot snap sl =
     \<lparr>fs_courseId = courseId sl, fs_teacherId = teacherId sl, fs_roomId = roomId sl,
      fs_dayOfWeek = dayOfWeek sl, fs_startTime = startTime sl, fs_endTime = endTime sl,
      fs_course = find (\<lambda>c. course_id c = courseId sl) (courses snap),
      fs_teacher = find (\<lambda>t. teacher_id t = teacherId sl) (teachers snap),
      fs_room = find (\<lambda>r. room_id r = roomId sl) (rooms snap)\<rparr>"

definition formatTimetable :: "individual \<Rightarrow> snapshot \<Rightarrow> int \<Rightarrow> string \<Rightarrow> timetable" where
  "formatTimetable ind snap semester academicYear =
     \<lparr>tt_semester = semester, tt_academicYear = academicYear,
      tt_slots = map (format_slot snap) (slots ind),
      tt_conflicts = conflicts ind,
      tt_suggestions = generateSuggestions ind snap,
      tt_fitness = fitness ind\<rparr>"

text \<open>
  \<open>geneticAlgorithm\<close>: the threshold is the configured \<open>conflictThreshold\<close>,
  the double \<open>0.8\<close> unless set. The best solution is the first individual of
  the population the loop leaves.
\<close>

definition default_conflictThreshold :: rat where
  "default_conflictThreshold = double_of (8 / 10)"

definition geneticAlgorithm ::
  "rng \<Rightarrow> rat \<Rightarrow> snapshot \<Rightarrow> int \<Rightarrow> string \<Rightarrow> error + timetable" where
  "geneticAlgorithm rnd threshold snap semester academicYear =
     (case initializePopulation rnd 0 populationSize snap of
        Inl e \<Rightarrow> Inl e
      | Inr st \<Rightarrow>
          (case for_generations rnd snap threshold 0 st of
             Inl e \<Rightarrow> Inl e
           | Inr st' \<Rightarrow>
               (case fst st' of
                  [] \<Rightarrow> Inl TypeError
                | bestSolution # _ \<Rightarrow>
                    Inr (formatTimetable bestSolution snap semester academicYear))))"

section \<open>Validation, logging and the entry point\<close>

definition validateInputs ::
  "student list \<Rightarrow> teacher list \<Rightarrow> course list \<Rightarrow> room list \<Rightarrow> error option" where
  "validateInputs sts ts cs rs =
     (if length sts = 0 then Some (Error ''No students found'')
      else if length ts = 0 then Some (Error ''No teachers found'')
      else if length cs = 0 then Some (Error ''No courses found'')
      else if length rs = 0 then Some (Error ''No rooms found'')
      else None)"

fun error_message :: "error \<Rightarrow> string" where
  "error_message (Error m) = m"
| "error_message TypeError = ''Cannot read properties of undefined''"

datatype status = SUCCESS | FAILED

text \<open>
  The record handed to the log store. The status is \<open>FAILED\<close> when an error
  message was passed and is not empty. Times are left out.
\<close>

record ai_log =
  log_operation :: string
  log_outputData :: "timetable option"
  log_conflicts :: "conflict list"
  log_suggestions :: "suggestion list"
  log_status :: status

definition logAIOperation :: "string \<Rightarrow> timetable option \<Rightarrow> string option \<Rightarrow> ai_log" where
  "logAIOperation operation outputData err =
     \<lparr>log_operation = operation, log_outputData = outputData,
      log_conflicts = (case outputData of None \<Rightarrow> [] | Some t \<Rightarrow> tt_conflicts t),
      log_suggestions = (case outputData of None \<Rightarrow> [] | Some t \<Rightarrow> tt_suggestions t),
      log_status = (case err of None \<Rightarrow> SUCCESS
                    | Some m \<Rightarrow> if m = [] then SUCCESS else FAILED)\<rparr>"

record response =
  success :: bool
  r_timetable :: timetable
  r_conflicts :: "conflict list"
  r_suggestions :: "suggestion list"

text \<open>
  \<open>generateTimetable\<close> from the point where the five collections have been
  read: the outcome for the caller (the error is thrown again after logging)
  and the log record written.
\<close>

definition generateTimetable ::
  "rng \<Rightarrow> rat \<Rightarrow> snapshot \<Rightarrow> int \<Rightarrow> string \<Rightarrow> (error + response) \<times> ai_log" where
  "generateTimetable rnd threshold snap semester academicYear =
     (case validateInputs (students snap) (teachers snap) (courses snap) (rooms snap) of
        Some e \<Rightarrow> (Inl e, logAIOperation ''GENERATE'' None (Some (error_message e)))
      | None \<Rightarrow>
          (case geneticAlgorithm rnd threshold snap semester academicYear of
             Inl e \<Rightarrow> (Inl e, logAIOperation ''GENERATE'' None (Some (error_message e)))
           | Inr t \<Rightarrow>
               (Inr \<lparr>success = True, r_timetable = t, r_conflicts = tt_conflicts t,
                     r_suggestions = tt_suggestions t\<rparr>,
                logAIOperation ''GENERATE'' (Some t) None)))"

section \<open>Vocabulary of the driver properties\<close>

text \<open>
  The state (population and draw position) with which the loop enters
  generation \<open>g\<close>, if the run gets there: the initial population for generation
  0, then what the body of the previous generation handed on.
\<close>

fun generation_state ::
  "rng \<Rightarrow> rat \<Rightarrow> snapshot \<Rightarrow> nat \<Rightarrow> (individual list \<times> nat) option" where
  "generation_state rnd threshold snap 0 =
     (case initializePopulation rnd 0 populationSize snap of
        Inl e \<Rightarrow> None | Inr st \<Rightarrow> Some st)"
| "generation_state rnd threshold snap (Suc g) =
     (case generation_state rnd threshold snap g of
        None \<Rightarrow> None
      | Some st \<Rightarrow>
          (case generation_body rnd snap threshold st of
             Inr (Next st') \<Rightarrow> Some st'
           | _ \<Rightarrow> None))"

text \<open>The population of a state after evaluation and sorting.\<close>

definition evaluated :: "snapshot \<Rightarrow> individual list \<times> nat \<Rightarrow> individual list" where
  "evaluated snap st = sort_by_fitness (map (evaluate snap) (fst st))"

text \<open>The population of generation \<open>g\<close> after evaluation and sorting.\<close>

definition evaluated_at ::
  "rng \<Rightarrow> rat \<Rightarrow> snapshot \<Rightarrow> nat \<Rightarrow> individual list option" where
  "evaluated_at rnd threshold snap g =
     (if g < generations
      then map_option (evaluated snap) (generation_state rnd threshold snap g)
      else None)"

section \<open>Sample data\<close>

text \<open>
  Small data in the shape of the service's unit tests: two teachers, one
  course, one room and two slots of the same teacher in the same room and
  period.
\<close>

definition ex_teacher1 :: teacher where
  "ex_teacher1 = \<lparr>teacher_id = ''1'', maxWorkload = 2\<rparr>"

definition ex_teacher2 :: teacher where
  "ex_teacher2 = \<lparr>teacher_id = ''2'', maxWorkload = 35\<rparr>"

definition ex_course1 :: course where
  "ex_course1 = \<lparr>course_id = ''1'', course_teacherId = ''1'', course_creditHours = 3, maxStudents = Given 25\<rparr>"

definition ex_room1 :: room where
  "ex_room1 = \<lparr>room_id = ''1'', capacity = 30, roomType = ''CLASSROOM''\<rparr>"

definition ex_slot1 :: slot where
  "ex_slot1 = \<lparr>courseId = ''1'', teacherId = ''1'', roomId = ''1'', dayOfWeek = 1,
     startTime = ''09:00'', endTime = ''10:30'', creditHours = 3\<rparr>"

definition ex_slot2 :: slot where
  "ex_slot2 = \<lparr>courseId = ''2'', teacherId = ''1'', roomId = ''1'', dayOfWeek = 1,
     startTime = ''09:00'', endTime = ''10:30'', creditHours = 3\<rparr>"

definition ex_snapshot :: snapshot where
  "ex_snapshot = \<lparr>students = [\<lparr>student_id = ''1''\<rparr>], teachers = [ex_teacher1, ex_teacher2],
     courses = [ex_course1], rooms = [ex_room1], existingTimetables = []\<rparr>"

definition ex_individual :: individual where
  "ex_individual = \<lparr>slots = [ex_slot1, ex_slot2], conflicts = [], fitness = 0\<rparr>"

text \<open>A slot of another teacher in the same room and period as \<open>ex_slot1\<close>.\<close>

definition ex_slot3 :: slot where
  "ex_slot3 = \<lparr>courseId = ''3'', teacherId = ''2'', roomId = ''1'', dayOfWeek = 1,
     startTime = ''09:00'', endTime = ''10:30'', creditHours = 3\<rparr>"

definition ex_room2 :: room where
  "ex_room2 = \<lparr>room_id = ''2'', capacity = 40, roomType = ''CLASSROOM''\<rparr>"

definition ex_lab :: room where
  "ex_lab = \<lparr>room_id = ''3'', capacity = 20, roomType = ''COMPUTER_LAB''\<rparr>"

text \<open>A draw sequence of zeros, and a snapshot with one course, one teacher and one room.\<close>

definition rnd_zero :: rng where
  "rnd_zero = (\<lambda>n. 0)"

definition ex_small :: snapshot where
  "ex_small = \<lparr>students = [\<lparr>student_id = ''1''\<rparr>], teachers = [ex_teacher1],
     courses = [ex_course1], rooms = [ex_room1], existingTimetables = []\<rparr>"

text \<open>A course whose teacher is not in the teacher list, and a slot for it.\<close>

definition ex_orphan_course :: course where
  "ex_orphan_course = \<lparr>course_id = ''9'', course_teacherId = ''7'', course_creditHours = 3,
     maxStudents = Undefined\<rparr>"


definition ex_orphan_snapshot :: snapshot where
  "ex_orphan_snapshot = \<lparr>students = [\<lparr>student_id = ''1''\<rparr>], teachers = [ex_teacher1],
     courses = [ex_course1, ex_orphan_course], rooms = [ex_room1], existingTimetables = []\<rparr>"

text \<open>
  A day of three slots that follow one another without a gap, of 66, 177 and
  177 minutes, for a teacher whose limit is 7 hours.
\<close>

definition ex_teacher3 :: teacher where
  "ex_teacher3 = \<lparr>teacher_id = ''3'', maxWorkload = 7\<rparr>"

definition ex_slot_a :: slot where
  "ex_slot_a = \<lparr>courseId = ''4'', teacherId = ''3'', roomId = ''1'', dayOfWeek = 2,
     startTime = ''09:00'', endTime = ''10:06'', creditHours = 3\<rparr>"

definition ex_slot_b :: slot where
  "ex_slot_b = \<lparr>courseId = ''5'', teacherId = ''3'', roomId = ''1'', dayOfWeek = 2,
     startTime = ''10:06'', endTime = ''13:03'', creditHours = 3\<rparr>"

definition ex_slot_c :: slot where
  "ex_slot_c = \<lparr>courseId = ''6'', teacherId = ''3'', roomId = ''1'', dayOfWeek = 2,
     startTime = ''13:03'', endTime = ''16:00'', creditHours = 3\<rparr>"

definition ex_day :: individual where
  "ex_day = \<lparr>slots = [ex_slot_a, ex_slot_b, ex_slot_c], conflicts = [], fitness = 0\<rparr>"

definition ex_day_snapshot :: snapshot where
  "ex_day_snapshot = \<lparr>students = [\<lparr>student_id = ''1''\<rparr>], teachers = [ex_teacher3],
     courses = [ex_course1], rooms = [ex_room1], existingTimetables = []\<rparr>"

text \<open>A committed entry of teacher 1 whose start is written with one hour digit.\<close>

definition ex_existing :: existing where
  "ex_existing = \<lparr>ex_teacherId = ''1'', ex_dayOfWeek = 1, ex_startTime = ''9:00'',
     ex_endTime = ''10:30''\<rparr>"

text \<open>
  Two teachers with a limit of one hour and a slot of an hour and a half each,
  the first slot in a lab too small for its course.
\<close>

definition ex_teacher_a :: teacher where
  "ex_teacher_a = \<lparr>teacher_id = ''a'', maxWorkload = 1\<rparr>"

definition ex_teacher_b :: teacher where
  "ex_teacher_b = \<lparr>teacher_id = ''b'', maxWorkload = 1\<rparr>"

definition ex_slot_lab :: slot where
  "ex_slot_lab = \<lparr>courseId = ''1'', teacherId = ''a'', roomId = ''3'', dayOfWeek = 1,
     startTime = ''09:00'', endTime = ''10:30'', creditHours = 3\<rparr>"

definition ex_slot_other :: slot where
  "ex_slot_other = \<lparr>courseId = ''2'', teacherId = ''b'', roomId = ''1'', dayOfWeek = 2,
     startTime = ''09:00'', endTime = ''10:30'', creditHours = 3\<rparr>"

definition ex_tight :: individual where
  "ex_tight = \<lparr>slots = [ex_slot_lab, ex_slot_other], conflicts = [], fitness = 0\<rparr>"

definition ex_tight_snapshot :: snapshot where
  "ex_tight_snapshot = \<lparr>students = [\<lparr>student_id = ''1''\<rparr>],
     teachers = [ex_teacher_a, ex_teacher_b], courses = [ex_course1],
     rooms = [ex_room1, ex_lab], existingTimetables = []\<rparr>"

section \<open>Properties\<close>

subsection \<open>Rounding to doubles\<close>

lemma round_half_even_le: "y \<le> of_int N \<Longrightarrow> round_half_even y \<le> N"
proof -
  assume a: "y \<le> of_int N"
  have f: "\<lfloor>y\<rfloor> \<le> N" using a by (simp add: floor_le_iff)
  show ?thesis
  proof (cases "\<lfloor>y\<rfloor> = N")
    case True
    then have "y = of_int N" using a by (metis of_int_floor_le order_antisym)
    then show ?thesis by (simp add: round_half_even_def)
  next
    case False
    then have "\<lfloor>y\<rfloor> + 1 \<le> N" using f by simp
    then show ?thesis by (auto simp: round_half_even_def Let_def)
  qed
qed

lemma round_half_even_ge: "of_int N \<le> y \<Longrightarrow> N \<le> round_half_even y"
proof -
  assume "of_int N \<le> y"
  then have "N \<le> \<lfloor>y\<rfloor>" by (simp add: le_floor_iff)
  then show ?thesis by (auto simp: round_half_even_def Let_def)
qed

lemma round_half_even_of_int [simp]: "round_half_even (of_int n) = n"
  by (simp add: round_half_even_def)

lemma powi_pos: "0 < (2::rat) powi k"
  by (simp add: zero_less_power_int)

lemma powi_minus_divide: "(2::rat) powi (- a) = 1 / 2 powi a"
  by (simp add: power_int_minus divide_inverse)

lemma mult_powi_less_one: "x * 2 powi a < 1 \<longleftrightarrow> x < (2::rat) powi (- a)"
  by (simp only: powi_minus_divide pos_less_divide_eq[OF powi_pos])

lemma one_le_mult_powi: "1 \<le> x * 2 powi a \<longleftrightarrow> (2::rat) powi (- a) \<le> x"
  by (simp only: powi_minus_divide pos_divide_le_eq[OF powi_pos])

lemma ilog2_bounds:
  assumes "0 < x"
  shows "2 powi ilog2 x \<le> x \<and> x < 2 powi (ilog2 x + 1)"
proof (cases "1 \<le> x")
  case True
  let ?n = "\<lfloor>x\<rfloor>"
  have n: "0 < ?n" using True by simp
  from bitlen_bounds[OF n] have b: "2 ^ nat (bitlen ?n - 1) \<le> ?n" "?n < 2 ^ nat (bitlen ?n)" by auto
  have b1: "1 \<le> bitlen ?n" using n by (simp add: bitlen_alt_def)
  have "(2::rat) powi (bitlen ?n - 1) = of_int (2 ^ nat (bitlen ?n - 1))"
    using b1 by (simp add: power_int_def)
  also have "\<dots> \<le> of_int ?n" using b(1) by (simp only: of_int_le_iff)
  also have "\<dots> \<le> x" by simp
  finally have lo: "2 powi (bitlen ?n - 1) \<le> x" .
  have "?n + 1 \<le> 2 ^ nat (bitlen ?n)" using b(2) by simp
  then have "(of_int (?n + 1) :: rat) \<le> of_int (2 ^ nat (bitlen ?n))" by (simp only: of_int_le_iff)
  moreover have "x < of_int (?n + 1)" by linarith
  moreover have "(2::rat) powi (bitlen ?n) = of_int (2 ^ nat (bitlen ?n))"
    using b1 by (simp add: power_int_def)
  ultimately have hi: "x < 2 powi (bitlen ?n)" by simp
  show ?thesis using lo hi True by (simp add: ilog2_def)
next
  case False
  then have x1: "x < 1" by simp
  let ?y = "1 / x"
  let ?m = "\<lceil>?y\<rceil> - 1"
  have y1: "1 < ?y" using assms x1 by simp
  then have m: "0 < ?m" by (simp add: less_ceiling_iff)
  from bitlen_bounds[OF m] have b: "2 ^ nat (bitlen ?m - 1) \<le> ?m" "?m < 2 ^ nat (bitlen ?m)" by auto
  have b1: "1 \<le> bitlen ?m" using m by (simp add: bitlen_alt_def)
  have my: "of_int ?m < ?y" by (simp add: less_ceiling_iff[symmetric]) linarith
  have ym: "?y \<le> of_int (?m + 1)" by simp
  have "?m + 1 \<le> 2 ^ nat (bitlen ?m)" using b(2) by simp
  then have "(of_int (?m + 1) :: rat) \<le> of_int (2 ^ nat (bitlen ?m))" by (simp only: of_int_le_iff)
  with ym have "?y \<le> of_int (2 ^ nat (bitlen ?m))" by linarith
  also have "\<dots> = 2 powi (bitlen ?m)" using b1 by (simp add: power_int_def)
  finally have "?y \<le> 2 powi (bitlen ?m)" .
  then have "1 \<le> x * 2 powi (bitlen ?m)" using assms by (simp add: field_simps)
  then have lo: "2 powi (- bitlen ?m) \<le> x" by (simp only: one_le_mult_powi)
  have "(of_int (2 ^ nat (bitlen ?m - 1)) :: rat) \<le> of_int ?m" using b(1) by (simp only: of_int_le_iff)
  with my have "of_int (2 ^ nat (bitlen ?m - 1)) < ?y" by linarith
  moreover have "(2::rat) powi (bitlen ?m - 1) = of_int (2 ^ nat (bitlen ?m - 1))"
    using b1 by (simp add: power_int_def)
  ultimately have "2 powi (bitlen ?m - 1) < ?y" by simp
  then have "x * 2 powi (bitlen ?m - 1) < 1" using assms by (simp add: field_simps)
  then have "x < 2 powi (- (bitlen ?m - 1))" by (simp only: mult_powi_less_one)
  moreover have "- (bitlen ?m - 1) = - bitlen ?m + 1" by simp
  ultimately have hi: "x < 2 powi (- bitlen ?m + 1)" by simp
  show ?thesis using lo hi x1 by (simp add: ilog2_def)
qed

lemma double_of_nonneg: "0 \<le> x \<Longrightarrow> 0 \<le> double_of x"
proof -
  assume a: "0 \<le> x"
  have "0 \<le> x / 2 powi quantum x" using a powi_pos[of "quantum x"] by simp
  then have "(of_int 0 :: rat) \<le> x / 2 powi quantum x" by simp
  then have "0 \<le> round_half_even (x / 2 powi quantum x)" by (rule round_half_even_ge)
  then show ?thesis using powi_pos[of "quantum x"] by (simp add: double_of_def)
qed

lemma powi_le_imp_le: "(2::rat) powi m \<le> 2 powi n \<Longrightarrow> m \<le> n"
proof (rule ccontr)
  assume a: "(2::rat) powi m \<le> 2 powi n" and "\<not> m \<le> n"
  then have "n < m" by simp
  then have "(2::rat) powi n < 2 powi m" by (rule power_int_strict_increasing) simp
  with a show False by simp
qed

lemma powi_less_imp_less: "(2::rat) powi m < 2 powi n \<Longrightarrow> m < n"
proof (rule ccontr)
  assume a: "(2::rat) powi m < 2 powi n" and "\<not> m < n"
  then have "n \<le> m" by simp
  then have "(2::rat) powi n \<le> 2 powi m" by (rule power_int_increasing) simp
  with a show False by simp
qed

lemma ilog2_le:
  assumes "0 < x" and "x \<le> 2 powi k"
  shows "ilog2 x \<le> k"
proof -
  have "(2::rat) powi ilog2 x \<le> 2 powi k" using ilog2_bounds[OF assms(1)] assms(2) by linarith
  then show ?thesis by (rule powi_le_imp_le)
qed

lemma ilog2_less:
  assumes "0 < x" and "x < 2 powi k"
  shows "ilog2 x < k"
proof -
  have "(2::rat) powi ilog2 x < 2 powi k" using ilog2_bounds[OF assms(1)] assms(2) by linarith
  then show ?thesis by (rule powi_less_imp_less)
qed

lemma ilog2_ge:
  assumes "0 < x" and "2 powi k \<le> x"
  shows "k \<le> ilog2 x"
proof -
  have "(2::rat) powi k < 2 powi (ilog2 x + 1)" using ilog2_bounds[OF assms(1)] assms(2) by linarith
  then have "k < ilog2 x + 1" by (rule powi_less_imp_less)
  then show ?thesis by simp
qed

lemma ilog2_unique:
  assumes "0 < x" and "2 powi e \<le> x" and "x < 2 powi (e + 1)"
  shows "ilog2 x = e"
  using ilog2_ge[OF assms(1,2)] ilog2_less[OF assms(1,3)] by simp

lemma powi_nat: "0 \<le> k \<Longrightarrow> (2::rat) powi k = of_int (2 ^ nat k)"
  by (simp add: power_int_def)

lemma powi_add: "(2::rat) powi (a + b) = 2 powi a * 2 powi b"
  by (simp add: power_int_add)

lemma powi_split: "q \<le> k \<Longrightarrow> (2::rat) powi k = of_int (2 ^ nat (k - q)) * 2 powi q"
proof -
  assume qk: "q \<le> k"
  have "(2::rat) powi k = 2 powi ((k - q) + q)" by simp
  also have "\<dots> = 2 powi (k - q) * 2 powi q" by (rule powi_add)
  also have "(2::rat) powi (k - q) = of_int (2 ^ nat (k - q))" using qk by (intro powi_nat) simp
  finally show ?thesis .
qed

lemma double_of_le_1:
  assumes "x \<le> 1"
  shows "double_of x \<le> 1"
proof (cases "x = 0")
  case True
  then show ?thesis by (simp add: double_of_def)
next
  case False
  let ?q = "quantum x"
  show ?thesis
  proof (cases "x < 0")
    case True
    then have "x / 2 powi ?q \<le> of_int 0" using powi_pos[of ?q] by (simp add: field_simps)
    then have "round_half_even (x / 2 powi ?q) \<le> 0" by (rule round_half_even_le)
    then have "of_int (round_half_even (x / 2 powi ?q)) * 2 powi ?q \<le> (0::rat)"
      using powi_pos[of ?q] by (simp add: mult_le_0_iff)
    then show ?thesis using False by (simp add: double_of_def)
  next
    case f: False
    with False have pos: "0 < \<bar>x\<bar>" and ax: "\<bar>x\<bar> = x" by simp_all
    have "\<bar>x\<bar> \<le> 2 powi 0" using assms ax by simp
    from ilog2_le[OF pos this] have q0: "?q \<le> 0" by (simp add: quantum_def)
    have one: "(1::rat) = of_int (2 ^ nat (0 - ?q)) * 2 powi ?q"
      using powi_split[OF q0] by simp
    have p: "(0::rat) < 2 powi ?q" by (rule powi_pos)
    have "x / 2 powi ?q \<le> 1 / 2 powi ?q"
      using assms p by (intro divide_right_mono) simp_all
    also have "1 / (2::rat) powi ?q = of_int (2 ^ nat (0 - ?q))"
      using p by (subst one) simp
    finally have "round_half_even (x / 2 powi ?q) \<le> 2 ^ nat (0 - ?q)" by (rule round_half_even_le)
    then have "(of_int (round_half_even (x / 2 powi ?q)) :: rat) \<le> of_int (2 ^ nat (0 - ?q))"
      by (simp only: of_int_le_iff)
    then have "of_int (round_half_even (x / 2 powi ?q)) * 2 powi ?q \<le>
               of_int (2 ^ nat (0 - ?q)) * (2::rat) powi ?q"
      using p by (intro mult_right_mono) simp_all
    also have "\<dots> = 1" by (rule one[symmetric])
    finally show ?thesis using False by (simp add: double_of_def)
  qed
qed

lemma double_of_at:
  assumes "- 1074 \<le> q" and "2 powi (q + 52) \<le> \<bar>x\<bar>" and "\<bar>x\<bar> < 2 powi (q + 53)"
  shows "double_of x = of_int (round_half_even (x / 2 powi q)) * 2 powi q"
proof -
  have pos: "0 < \<bar>x\<bar>" using assms(2) powi_pos[of "q + 52"] by linarith
  have "\<bar>x\<bar> < 2 powi (q + 52 + 1)" using assms(3) by (simp add: add.commute add.left_commute)
  from ilog2_unique[OF pos assms(2) this] have "quantum x = q"
    using assms(1) by (simp add: quantum_def)
  then show ?thesis using pos by (simp add: double_of_def)
qed

lemma double_of_exact:
  assumes "x = of_int m * 2 powi k" and "\<bar>m\<bar> < 2 ^ 53" and "- 1074 \<le> k"
  shows "double_of x = x"
proof (cases "x = 0")
  case True
  then show ?thesis by (simp add: double_of_def)
next
  case False
  let ?q = "quantum x"
  have pos: "0 < \<bar>x\<bar>" using False by simp
  have pk: "(0::rat) < 2 powi k" by (rule powi_pos)
  have pq: "(0::rat) < 2 powi ?q" by (rule powi_pos)
  have "(of_int \<bar>m\<bar> :: rat) < of_int (2 ^ nat 53)" using assms(2) by (simp only: of_int_less_iff) simp
  also have "\<dots> = 2 powi 53" by (rule powi_nat[symmetric]) simp
  finally have m: "(of_int \<bar>m\<bar> :: rat) < 2 powi 53" .
  have "\<bar>x\<bar> = of_int \<bar>m\<bar> * 2 powi k"
    using pk by (simp add: assms(1) abs_mult)
  also have "\<dots> < 2 powi 53 * 2 powi k"
    using m pk by (rule mult_strict_right_mono)
  also have "\<dots> = 2 powi (53 + k)" by (rule powi_add[symmetric])
  finally have "\<bar>x\<bar> < 2 powi (53 + k)" .
  from ilog2_less[OF pos this] have qk: "?q \<le> k" using assms(3) by (simp add: quantum_def)
  note k = powi_split[OF qk]
  have nz: "(2::rat) powi ?q \<noteq> 0" using pq by simp
  have "x = of_int (m * 2 ^ nat (k - ?q)) * 2 powi ?q"
    by (subst assms(1), subst k) simp
  then have "x / 2 powi ?q = of_int (m * 2 ^ nat (k - ?q))"
    by (simp only: nonzero_divide_eq_eq[OF nz])
  then have "round_half_even (x / 2 powi ?q) = m * 2 ^ nat (k - ?q)"
    by (simp only: round_half_even_of_int)
  then have "double_of x = of_int (m * 2 ^ nat (k - ?q)) * 2 powi ?q"
    using False by (simp only: double_of_def if_False)
  also have "\<dots> = x" by (subst assms(1), subst k) simp
  finally show ?thesis .
qed

lemma double_of_int: "\<bar>m\<bar> < 2 ^ 53 \<Longrightarrow> double_of (of_int m) = of_int m"
  using double_of_exact[of "of_int m" m 0] by simp

lemma double_of_half_int: "\<bar>m\<bar> < 2 ^ 53 \<Longrightarrow> double_of (of_int m / 2) = of_int m / 2"
  using double_of_exact[of "of_int m / 2" m "- 1"] by (simp add: power_int_minus)

text \<open>
  What \<open>double_of\<close> returns is a double, a multiple of the quantum with a
  significand of at most 53 bits, and no double is nearer to the argument: the
  error is at most half a quantum. A number that is a double is returned as
  it is (\<open>double_of_exact\<close>).
\<close>

lemma round_half_even_error: "\<bar>of_int (round_half_even y) - y\<bar> \<le> 1 / 2"
proof -
  have "of_int \<lfloor>y\<rfloor> \<le> y" "y < of_int \<lfloor>y\<rfloor> + 1" by linarith+
  then show ?thesis by (auto simp: round_half_even_def Let_def abs_le_iff)
qed

lemma double_of_error: "\<bar>double_of x - x\<bar> \<le> 2 powi quantum x / 2"
proof (cases "x = 0")
  case True
  then show ?thesis using powi_pos[of "quantum 0"] by (simp add: double_of_def)
next
  case False
  let ?q = "quantum x"
  have p: "(0::rat) < 2 powi ?q" by (rule powi_pos)
  have "double_of x - x = (of_int (round_half_even (x / 2 powi ?q)) - x / 2 powi ?q) * 2 powi ?q"
    using False p by (simp add: double_of_def algebra_simps)
  then have "\<bar>double_of x - x\<bar> = \<bar>of_int (round_half_even (x / 2 powi ?q)) - x / 2 powi ?q\<bar> * 2 powi ?q"
    using p by (simp add: abs_mult)
  also have "\<dots> \<le> 1 / 2 * 2 powi ?q"
    using p by (intro mult_right_mono round_half_even_error) simp
  finally show ?thesis by simp
qed

lemma double_of_significand:
  "\<exists>m. double_of x = of_int m * 2 powi quantum x \<and> \<bar>m\<bar> \<le> 2 ^ 53"
proof (cases "x = 0")
  case True
  then show ?thesis by (intro exI[of _ 0]) (simp add: double_of_def)
next
  case False
  let ?q = "quantum x"
  let ?m = "round_half_even (x / 2 powi ?q)"
  have p: "(0::rat) < 2 powi ?q" by (rule powi_pos)
  have pos: "0 < \<bar>x\<bar>" using False by simp
  have "ilog2 \<bar>x\<bar> + 1 \<le> ?q + 53" by (simp add: quantum_def)
  then have "(2::rat) powi (ilog2 \<bar>x\<bar> + 1) \<le> 2 powi (?q + 53)"
    by (rule power_int_increasing) simp
  with ilog2_bounds[OF pos] have "\<bar>x\<bar> < 2 powi (?q + 53)" by linarith
  also have "\<dots> = 2 powi 53 * 2 powi ?q" by (simp only: powi_add mult.commute)
  finally have "\<bar>x\<bar> / 2 powi ?q < 2 powi 53" using p by (simp add: pos_divide_less_eq)
  then have b: "\<bar>x / 2 powi ?q\<bar> < of_int (2 ^ 53)" using p by (simp add: abs_divide powi_nat)
  have "x / 2 powi ?q \<le> \<bar>x / 2 powi ?q\<bar>" "- \<bar>x / 2 powi ?q\<bar> \<le> x / 2 powi ?q"
    by (simp_all add: abs_le_iff[symmetric] del: abs_divide)
  with b have "x / 2 powi ?q \<le> of_int (2 ^ 53)" "of_int (- (2 ^ 53)) \<le> x / 2 powi ?q"
    by (simp_all only: of_int_minus)
  then have "?m \<le> 2 ^ 53" "- (2 ^ 53) \<le> ?m"
    by (simp_all only: round_half_even_le round_half_even_ge)
  then have "\<bar>?m\<bar> \<le> 2 ^ 53" by (simp add: abs_le_iff)
  then show ?thesis using False by (intro exI[of _ ?m]) (simp add: double_of_def)
qed

subsection \<open>Some doubles\<close>

lemma floor_rat_numeral_div: "\<lfloor>(numeral a / numeral b :: rat)\<rfloor> = numeral a div numeral b"
  using floor_divide_of_int_eq[of "numeral a" "numeral b", where ?'a = rat] by simp

lemma double_0: "double_of 0 = 0"
  by (simp add: double_of_def)

lemma double_3_10: "double_of (3 / 10) = 5404319552844595 / 18014398509481984"
  by (subst double_of_at[of "- 54"])
     (simp_all add: power_int_minus round_half_even_def floor_rat_numeral_div Let_def)

lemma double_2_5: "double_of (2 / 5) = 3602879701896397 / 9007199254740992"
  by (subst double_of_at[of "- 54"])
     (simp_all add: power_int_minus round_half_even_def floor_rat_numeral_div Let_def)

lemma double_1_5: "double_of (1 / 5) = 3602879701896397 / 18014398509481984"
  by (subst double_of_at[of "- 55"])
     (simp_all add: power_int_minus round_half_even_def floor_rat_numeral_div Let_def)

lemma double_1_10: "double_of (1 / 10) = 3602879701896397 / 36028797018963968"
  by (subst double_of_at[of "- 56"])
     (simp_all add: power_int_minus round_half_even_def floor_rat_numeral_div Let_def)

lemma double_4_5: "double_of (4 / 5) = 3602879701896397 / 4503599627370496"
  by (subst double_of_at[of "- 53"])
     (simp_all add: power_int_minus round_half_even_def floor_rat_numeral_div Let_def)

lemma double_3_2: "double_of (3 / 2) = 3 / 2"
  by (subst double_of_at[of "- 52"])
     (simp_all add: power_int_minus round_half_even_def floor_rat_numeral_div Let_def)

lemma double_1: "double_of 1 = 1"
  by (subst double_of_at[of "- 52"])
     (simp_all add: power_int_minus round_half_even_def floor_rat_numeral_div Let_def)

lemma double_3: "double_of 3 = 3"
  by (subst double_of_at[of "- 51"])
     (simp_all add: power_int_minus round_half_even_def floor_rat_numeral_div Let_def)

lemma double_tenth: "double_of (3602879701896397 / 36028797018963968) = 3602879701896397 / 36028797018963968"
  by (subst double_of_at[of "- 56"])
     (simp_all add: power_int_minus round_half_even_def floor_rat_numeral_div Let_def)

lemma double_sub_a: "double_of (12610078956637389 / 18014398509481984) = 3152519739159347 / 4503599627370496"
  by (subst double_of_at[of "- 53"])
     (simp_all add: power_int_minus round_half_even_def floor_rat_numeral_div Let_def)

lemma double_sub_b: "double_of (2702159776422297 / 9007199254740992) = 2702159776422297 / 9007199254740992"
  by (subst double_of_at[of "- 54"])
     (simp_all add: power_int_minus round_half_even_def floor_rat_numeral_div Let_def)

lemma double_sub_c: "double_of (7205759403792791 / 36028797018963968) = 7205759403792791 / 36028797018963968"
  by (subst double_of_at[of "- 55"])
     (simp_all add: power_int_minus round_half_even_def floor_rat_numeral_div Let_def)

lemma double_elite: "double_of (90071992547409925 / 9007199254740992) = 10"
  by (subst double_of_at[of "- 49"])
     (simp_all add: power_int_minus round_half_even_def floor_rat_numeral_div Let_def)

lemma double_11_10: "double_of (11 / 10) = 2476979795053773 / 2251799813685248"
  by (subst double_of_at[of "- 52"])
     (simp_all add: power_int_minus round_half_even_def floor_rat_numeral_div Let_def)

lemma double_59_20: "double_of (59 / 20) = 3321404725185741 / 1125899906842624"
  by (subst double_of_at[of "- 51"])
     (simp_all add: power_int_minus round_half_even_def floor_rat_numeral_div Let_def)

lemma double_hours_a: "double_of (2476979795053773 / 2251799813685248) = 2476979795053773 / 2251799813685248"
  by (subst double_of_at[of "- 52"])
     (simp_all add: power_int_minus round_half_even_def floor_rat_numeral_div Let_def)

lemma double_hours_ab: "double_of (9119789245425255 / 2251799813685248) = 1139973655678157 / 281474976710656"
  by (subst double_of_at[of "- 50"])
     (simp_all add: power_int_minus round_half_even_def floor_rat_numeral_div Let_def)

lemma double_hours_abc: "double_of (7881299347898369 / 1125899906842624) = 7881299347898369 / 1125899906842624"
  by (subst double_of_at[of "- 50"])
     (simp_all add: power_int_minus round_half_even_def floor_rat_numeral_div Let_def)

lemma double_over: "double_of (1 / 1125899906842624) = 1 / 1125899906842624"
  by (subst double_of_at[of "- 102"])
     (simp_all add: power_int_minus round_half_even_def floor_rat_numeral_div Let_def)

lemma double_over_tenth: "double_of (3602879701896397 / 40564819207303340847894502572032) = 3602879701896397 / 40564819207303340847894502572032"
  by (subst double_of_at[of "- 106"])
     (simp_all add: power_int_minus round_half_even_def floor_rat_numeral_div Let_def)

lemma double_sub_over: "double_of (40564819207303337245014800675635 / 40564819207303340847894502572032) = 9007199254740991 / 9007199254740992"
  by (subst double_of_at[of "- 53"])
     (simp_all add: power_int_minus round_half_even_def floor_rat_numeral_div Let_def)

lemma double_sub_fifth: "double_of (14411518807585587 / 18014398509481984) = 3602879701896397 / 4503599627370496"
  by (subst double_of_at[of "- 53"])
     (simp_all add: power_int_minus round_half_even_def floor_rat_numeral_div Let_def)

lemma double_1_20: "double_of (1 / 20) = 3602879701896397 / 72057594037927936"
  by (subst double_of_at[of "- 57"])
     (simp_all add: power_int_minus round_half_even_def floor_rat_numeral_div Let_def)

lemma double_sub_d: "double_of (68454714336031539 / 72057594037927936) = 4278419646001971 / 4503599627370496"
  by (subst double_of_at[of "- 53"])
     (simp_all add: power_int_minus round_half_even_def floor_rat_numeral_div Let_def)

lemma double_sub_e: "double_of (64851834634135139 / 72057594037927936) = 2026619832316723 / 2251799813685248"
  by (subst double_of_at[of "- 53"])
     (simp_all add: power_int_minus round_half_even_def floor_rat_numeral_div Let_def)

lemma double_sub_f: "double_of (28823037615171171 / 36028797018963968) = 7205759403792793 / 9007199254740992"
  by (subst double_of_at[of "- 53"])
     (simp_all add: power_int_minus round_half_even_def floor_rat_numeral_div Let_def)

lemma double_half: "double_of (1 / 2) = 1 / 2"
  by (subst double_of_at[of "- 53"])
     (simp_all add: power_int_minus round_half_even_def floor_rat_numeral_div Let_def)

lemma double_half_tenth: "double_of (3602879701896397 / 72057594037927936) = 3602879701896397 / 72057594037927936"
  by (subst double_of_at[of "- 57"])
     (simp_all add: power_int_minus round_half_even_def floor_rat_numeral_div Let_def)

lemmas double_vals = double_0 double_half double_half_tenth double_1_20 double_sub_d double_sub_e double_sub_f double_sub_fifth double_3_10 double_2_5 double_1_5 double_1_10 double_4_5 double_3_2 double_1 double_3 double_tenth double_sub_a double_sub_b double_sub_c double_elite double_11_10 double_59_20 double_hours_a double_hours_ab double_hours_abc double_over double_over_tenth double_sub_over

lemmas fl_defs = fl_add_def fl_sub_def fl_mul_def fl_div_def

subsection \<open>The evaluator as a list of recorded conflicts\<close>

lemma subtract_all_append:
  "subtract_all a (xs @ ys) = subtract_all (subtract_all a xs) ys"
  by (simp add: subtract_all_def)

lemma subtract_all_Nil: "subtract_all a [] = a"
  by (simp add: subtract_all_def)

lemma emits_fold:
  assumes "emits step out"
  shows "fold step xs a =
           (subtract_all (fst a) (concat (map out xs)), snd a @ concat (map out xs))"
  using assms
proof (induction xs arbitrary: a)
  case Nil
  then show ?case by (simp add: subtract_all_Nil)
next
  case (Cons x xs)
  have "step x a = (subtract_all (fst a) (out x), snd a @ out x)"
    using Cons.prems unfolding emits_def by blast
  then show ?case by (simp add: Cons.IH[OF Cons.prems] subtract_all_append)
qed

lemma emits_check_pair: "emits (check_pair s) (pair_out s)"
  by (simp add: emits_def check_pair_def pair_out_def teacher_clash_def room_clash_def Let_def
      subtract_all_def)

lemma emits_check_existing: "emits (check_existing s) (existing_out s)"
  by (simp add: emits_def check_existing_def existing_out_def existing_clash_def subtract_all_def)

lemma emits_check_workload: "emits (check_workload ts) (workload_out ts)"
  by (simp add: emits_def check_workload_def workload_out_def subtract_all_def
      split: option.splits jsnum.splits)

lemma emits_check_capacity: "emits (check_capacity cs rs) (capacity_out cs rs)"
  by (simp add: emits_def check_capacity_def capacity_out_def subtract_all_def
      split: option.splits maybe_int.splits)

lemma check_slots_out:
  "check_slots sls exs a = (subtract_all (fst a) (slots_out sls exs), snd a @ slots_out sls exs)"
proof (induction sls arbitrary: a)
  case Nil
  then show ?case by (simp add: subtract_all_Nil)
next
  case (Cons s rest)
  show ?case
    by (simp add: Cons.IH emits_fold[OF emits_check_pair] emits_fold[OF emits_check_existing]
        subtract_all_append)
qed

lemma fitness_acc_recorded:
  "fitness_acc sls snap = (subtract_all 1 (recorded sls snap), recorded sls snap)"
  by (simp add: fitness_acc_def Let_def check_slots_out emits_fold[OF emits_check_workload]
      emits_fold[OF emits_check_capacity] recorded_def subtract_all_append)

subsection \<open>Recorded conflicts by type\<close>

lemma index_pairs_Suc:
  "index_pairs (Suc n) =
     map (Pair 0) [Suc 0..<Suc n] @ map (\<lambda>(i, j). (Suc i, Suc j)) (index_pairs n)"
proof -
  have a: "[0..<Suc n] = 0 # map Suc [0..<n]"
    by (simp add: upt_conv_Cons map_Suc_upt del: upt_Suc)
  have b: "map (Pair (Suc i)) [Suc (Suc i)..<Suc n] =
             map (\<lambda>(i, j). (Suc i, Suc j)) (map (Pair i) [Suc i..<n])" for i
    by (simp add: map_Suc_upt[symmetric] del: upt_Suc)
  show ?thesis
    unfolding index_pairs_def a
    by (simp add: map_concat comp_def b del: upt_Suc)
qed

lemma pairs_of_index:
  "pairs_of xs = map (\<lambda>(i, j). (xs ! i, xs ! j)) (index_pairs (length xs))"
proof (induction xs)
  case Nil
  then show ?case by (simp add: index_pairs_def)
next
  case (Cons x xs)
  have "map (\<lambda>i. (x, xs ! i)) [0..<length xs] = map (Pair x) (map ((!) xs) [0..<length xs])"
    by (simp add: comp_def)
  then have "map (Pair x) xs = map (\<lambda>(i, j). ((x # xs) ! i, (x # xs) ! j)) (map (Pair 0) [Suc 0..<Suc (length xs)])"
    by (simp add: map_Suc_upt[symmetric] map_nth comp_def del: upt_Suc)
  then show ?case
    by (simp add: index_pairs_Suc Cons.IH comp_def case_prod_unfold del: upt_Suc)
qed

lemma teacher_slots_out:
  "filter (has_type ''TEACHER_CONFLICT'') (slots_out sls exs) =
     map (\<lambda>(a, b). TEACHER_CONFLICT a b) (filter (\<lambda>(a, b). teacher_clash a b) (pairs_of sls))"
proof (induction sls)
  case Nil
  then show ?case by simp
next
  case (Cons s rest)
  have p: "filter (has_type ''TEACHER_CONFLICT'') (concat (map (pair_out s) rest)) =
        map (\<lambda>(a, b). TEACHER_CONFLICT a b) (filter (\<lambda>(a, b). teacher_clash a b) (map (Pair s) rest))"
    by (induction rest) (simp_all add: pair_out_def)
  have e: "filter (has_type ''TEACHER_CONFLICT'') (concat (map (existing_out s) exs)) = []"
    by (induction exs) (simp_all add: existing_out_def)
  show ?case by (simp add: p e Cons.IH)
qed

lemma room_slots_out:
  "filter (has_type ''ROOM_CONFLICT'') (slots_out sls exs) =
     map (\<lambda>(a, b). ROOM_CONFLICT a b) (filter (\<lambda>(a, b). room_clash a b) (pairs_of sls))"
proof (induction sls)
  case Nil
  then show ?case by simp
next
  case (Cons s rest)
  have p: "filter (has_type ''ROOM_CONFLICT'') (concat (map (pair_out s) rest)) =
        map (\<lambda>(a, b). ROOM_CONFLICT a b) (filter (\<lambda>(a, b). room_clash a b) (map (Pair s) rest))"
    by (induction rest) (simp_all add: pair_out_def)
  have e: "filter (has_type ''ROOM_CONFLICT'') (concat (map (existing_out s) exs)) = []"
    by (induction exs) (simp_all add: existing_out_def)
  show ?case by (simp add: p e Cons.IH)
qed

lemma existing_slots_out:
  "filter (has_type ''EXISTING_CONFLICT'') (slots_out sls exs) =
     concat (map (\<lambda>s. map (EXISTING_CONFLICT s) (filter (existing_clash s) exs)) sls)"
proof (induction sls)
  case Nil
  then show ?case by simp
next
  case (Cons s rest)
  have p: "filter (has_type ''EXISTING_CONFLICT'') (concat (map (pair_out s) rest)) = []"
    by (induction rest) (simp_all add: pair_out_def)
  have e: "filter (has_type ''EXISTING_CONFLICT'') (concat (map (existing_out s) exs)) =
             map (EXISTING_CONFLICT s) (filter (existing_clash s) exs)"
    by (induction exs) (simp_all add: existing_out_def)
  show ?case by (simp add: p e Cons.IH)
qed

lemma workload_out_type: "c \<in> set (workload_out ts entry) \<Longrightarrow> conflict_type c = ''WORKLOAD_EXCEEDED''"
  by (auto simp: workload_out_def check_workload_def split: option.splits jsnum.splits if_splits)

lemma capacity_out_type: "c \<in> set (capacity_out cs rs s) \<Longrightarrow> conflict_type c = ''CAPACITY_EXCEEDED''"
  by (auto simp: capacity_out_def check_capacity_def split: option.splits maybe_int.splits if_splits)

lemma slots_out_type:
  "c \<in> set (slots_out sls exs) \<Longrightarrow>
     conflict_type c \<in> {''TEACHER_CONFLICT'', ''ROOM_CONFLICT'', ''EXISTING_CONFLICT''}"
  by (induction sls) (auto simp: pair_out_def existing_out_def split: if_splits)

lemma filter_none: "(\<And>x. x \<in> set xs \<Longrightarrow> \<not> P x) \<Longrightarrow> filter P xs = []"
  by (induction xs) auto

lemma filter_all: "(\<And>x. x \<in> set xs \<Longrightarrow> P x) \<Longrightarrow> filter P xs = xs"
  by (induction xs) auto

subsection \<open>The workload table\<close>

lemma obj_set_fresh: "k \<notin> fst ` set ob \<Longrightarrow> obj_set ob k v = ob @ [(k, v)]"
  by (induction ob) auto

lemma init_workloads:
  "distinct (map fst ob @ map teacher_id ts) \<Longrightarrow>
     fold (\<lambda>t workloads. obj_set workloads (teacher_id t) (Num 0)) ts ob =
       ob @ map (\<lambda>t. (teacher_id t, Num 0)) ts"
proof (induction ts arbitrary: ob)
  case Nil
  then show ?case by simp
next
  case (Cons t ts)
  have "teacher_id t \<notin> fst ` set ob" using Cons.prems by auto
  then have s: "obj_set ob (teacher_id t) (Num 0) = ob @ [(teacher_id t, Num 0)]"
    by (rule obj_set_fresh)
  have "distinct (map fst (ob @ [(teacher_id t, Num 0)]) @ map teacher_id ts)"
    using Cons.prems by auto
  from Cons.IH[OF this] show ?case by (simp add: s)
qed

lemma obj_set_table:
  "distinct ks \<Longrightarrow> k \<in> set ks \<Longrightarrow>
     obj_set (map (\<lambda>k. (k, f k)) ks) k v = map (\<lambda>k'. (k', (f(k := v)) k')) ks"
  by (induction ks) auto

lemma map_of_table: "map_of (map (\<lambda>k. (k, f k)) ks) k = (if k \<in> set ks then Some (f k) else None)"
  by (induction ks) auto

lemma diff_hours_duration:
  assumes "valid_times s"
  shows "diff_hours (moment_HHmm (endTime s)) (moment_HHmm (startTime s)) = Num (duration_hours s)"
proof -
  obtain a b where ab: "moment_HHmm (startTime s) = Some a" "moment_HHmm (endTime s) = Some b"
    using assms by (auto simp: valid_times_def)
  have h: "(of_int (60000 * (int b - int a)) :: rat) / 3600000 = of_int (int b - int a) / 60"
    by simp
  have "diff_hours (moment_HHmm (endTime s)) (moment_HHmm (startTime s)) =
        Num (double_of (of_int (60000 * (int b - int a)) / 3600000))"
    by (simp only: ab diff_hours.simps fl_div_def)
  also have "\<dots> = Num (double_of (of_int (int b - int a) / 60))" by (simp only: h)
  also have "\<dots> = Num (duration_hours s)"
    by (simp only: duration_hours_def minutes_of_def ab option.case)
  finally show ?thesis .
qed

lemma add_duration_table:
  assumes "distinct ks" and "valid_times s"
  shows "add_duration s (map (\<lambda>k. (k, Num (f k))) ks) =
           map (\<lambda>k. (k, Num (if teacherId s = k then fl_add (f k) (duration_hours s) else f k))) ks"
proof (cases "teacherId s \<in> set ks")
  case True
  note d = diff_hours_duration[OF assms(2)]
  have "add_duration s (map (\<lambda>k. (k, Num (f k))) ks) =
          obj_set (map (\<lambda>k. (k, Num (f k))) ks) (teacherId s)
            (Num (fl_add (f (teacherId s)) (duration_hours s)))"
    using True by (simp add: add_duration_def map_of_table[where f="\<lambda>k. Num (f k)"] d)
  also have "\<dots> = map (\<lambda>k'. (k', ((\<lambda>k. Num (f k))
                (teacherId s := Num (fl_add (f (teacherId s)) (duration_hours s)))) k')) ks"
    by (rule obj_set_table[OF assms(1) True])
  also have "\<dots> = map (\<lambda>k. (k, Num (if teacherId s = k then fl_add (f k) (duration_hours s) else f k))) ks"
    by (rule map_cong) auto
  finally show ?thesis .
next
  case False
  have "add_duration s (map (\<lambda>k. (k, Num (f k))) ks) = map (\<lambda>k. (k, Num (f k))) ks"
    using False by (simp add: add_duration_def map_of_table[where f="\<lambda>k. Num (f k)"])
  also have "\<dots> = map (\<lambda>k. (k, Num (if teacherId s = k then fl_add (f k) (duration_hours s) else f k))) ks"
    using False by (intro map_cong) auto
  finally show ?thesis .
qed

lemma fold_add_duration_table:
  assumes "distinct ks" and "\<forall>s\<in>set sls. valid_times s"
  shows "fold add_duration sls (map (\<lambda>k. (k, Num (f k))) ks) =
           map (\<lambda>k. (k, Num (foldl fl_add (f k)
                  (map duration_hours (filter (\<lambda>s. teacherId s = k) sls))))) ks"
  using assms(2)
proof (induction sls arbitrary: f)
  case Nil
  then show ?case by simp
next
  case (Cons s sls)
  have v: "valid_times s" and r: "\<forall>s\<in>set sls. valid_times s" using Cons.prems by auto
  let ?g = "\<lambda>k. if teacherId s = k then fl_add (f k) (duration_hours s) else f k"
  have "fold add_duration (s # sls) (map (\<lambda>k. (k, Num (f k))) ks) =
        fold add_duration sls (map (\<lambda>k. (k, Num (?g k))) ks)"
    by (simp add: add_duration_table[OF assms(1) v])
  also have "\<dots> = map (\<lambda>k. (k, Num (foldl fl_add (?g k)
                  (map duration_hours (filter (\<lambda>s. teacherId s = k) sls))))) ks"
    by (rule Cons.IH[OF r])
  also have "\<dots> = map (\<lambda>k. (k, Num (foldl fl_add (f k)
                  (map duration_hours (filter (\<lambda>s'. teacherId s' = k) (s # sls)))))) ks"
    by (rule map_cong) auto
  finally show ?case .
qed

lemma workloads_table:
  assumes "distinct (map teacher_id ts)" and "\<forall>s\<in>set sls. valid_times s"
  shows "calculateTeacherWorkloads sls ts =
           map (\<lambda>t. (teacher_id t, Num (workload sls (teacher_id t)))) ts"
proof -
  have "fold (\<lambda>t workloads. obj_set workloads (teacher_id t) (Num 0)) ts [] =
          [] @ map (\<lambda>t. (teacher_id t, Num 0)) ts"
    by (rule init_workloads) (simp add: assms(1))
  then have i: "fold (\<lambda>t workloads. obj_set workloads (teacher_id t) (Num 0)) ts [] =
          map (\<lambda>k. (k, Num ((\<lambda>_. 0) k))) (map teacher_id ts)"
    by (simp add: comp_def)
  have d: "distinct (map teacher_id ts)" by (rule assms(1))
  have "fold add_duration sls (map (\<lambda>k. (k, Num ((\<lambda>_. 0) k))) (map teacher_id ts)) =
          map (\<lambda>k. (k, Num (foldl fl_add ((\<lambda>_. 0) k)
                 (map duration_hours (filter (\<lambda>s. teacherId s = k) sls))))) (map teacher_id ts)"
    by (rule fold_add_duration_table[OF d assms(2)])
  then show ?thesis
    unfolding calculateTeacherWorkloads_def i by (simp add: comp_def workload_def)
qed

lemma find_distinct_id:
  "distinct (map teacher_id ts) \<Longrightarrow> t \<in> set ts \<Longrightarrow>
     find (\<lambda>t'. teacher_id t' = teacher_id t) ts = Some t"
  by (induction ts) auto

lemma workload_out_entry:
  assumes "distinct (map teacher_id ts)" and "t \<in> set ts"
  shows "workload_out ts (teacher_id t, Num w) =
           (if w > of_int (maxWorkload t) then [WORKLOAD_EXCEEDED (teacher_id t) w (maxWorkload t)] else [])"
  by (simp add: workload_out_def check_workload_def find_distinct_id[OF assms])

lemma insort_key_map:
  "insort_key f (h x) (map h xs) = map h (insort_key (\<lambda>y. f (h y)) x xs)"
  by (induction xs) simp_all

lemma sort_key_map: "sort_key f (map h xs) = map h (sort_key (\<lambda>y. f (h y)) xs)"
  by (induction xs) (simp_all add: insort_key_map)

lemma Object_entries_table:
  "Object_entries (map (\<lambda>t. (teacher_id t, g t)) ts) =
     map (\<lambda>t. (teacher_id t, g t)) (entries_order ts)"
proof -
  have k: "index_key (teacher_id t, g t) = index_key (teacher_id t, ())" for t
    by (simp add: index_key_def)
  show ?thesis
    by (simp add: Object_entries_def entries_order_def filter_map comp_def sort_key_map k)
qed

lemma set_entries_order: "set (entries_order ts) = set ts"
  by (auto simp: entries_order_def)

lemma mset_entries_order: "mset (entries_order ts) = mset ts"
proof -
  have "mset ts = {#t \<in># mset ts. array_index (teacher_id t) \<noteq> None#} +
                  {#t \<in># mset ts. \<not> array_index (teacher_id t) \<noteq> None#}"
    by (rule multiset_partition)
  then show ?thesis by (simp add: entries_order_def)
qed

lemma workload_conflicts_order:
  assumes "distinct (map teacher_id ts)" and "\<forall>s\<in>set sls. valid_times s"
  shows "concat (map (workload_out ts) (Object_entries (calculateTeacherWorkloads sls ts))) =
         map (\<lambda>t. WORKLOAD_EXCEEDED (teacher_id t) (workload sls (teacher_id t)) (maxWorkload t))
           (filter (exceeds_workload sls) (entries_order ts))"
proof -
  let ?rec = "\<lambda>t. WORKLOAD_EXCEEDED (teacher_id t) (workload sls (teacher_id t)) (maxWorkload t)"
  have o: "Object_entries (calculateTeacherWorkloads sls ts) =
        map (\<lambda>t. (teacher_id t, Num (workload sls (teacher_id t)))) (entries_order ts)"
    unfolding workloads_table[OF assms] by (rule Object_entries_table)
  have "set xs \<subseteq> set ts \<Longrightarrow>
        concat (map (\<lambda>t. workload_out ts (teacher_id t, Num (workload sls (teacher_id t)))) xs) =
        map ?rec (filter (exceeds_workload sls) xs)" for xs
  proof (induction xs)
    case Nil
    then show ?case by simp
  next
    case (Cons x xs)
    have x: "x \<in> set ts" and r: "set xs \<subseteq> set ts" using Cons.prems by auto
    show ?case
      by (simp add: Cons.IH[OF r] workload_out_entry[OF assms(1) x] exceeds_workload_def)
  qed
  from this[of "entries_order ts"] show ?thesis
    unfolding o map_map comp_def by (simp add: set_entries_order)
qed

subsection \<open>Fitness as the penalties subtracted in order\<close>

lemma recorded_teacher:
  "filter (has_type ''TEACHER_CONFLICT'') (recorded sls snap) =
     map (\<lambda>(i, j). TEACHER_CONFLICT (sls ! i) (sls ! j))
       (filter (\<lambda>(i, j). teacher_clash (sls ! i) (sls ! j)) (index_pairs (length sls)))"
proof -
  have w: "filter (has_type ''TEACHER_CONFLICT'') (concat (map (workload_out ts) es)) = []" for ts es
    by (rule filter_none) (auto dest: workload_out_type)
  have c: "filter (has_type ''TEACHER_CONFLICT'') (concat (map (capacity_out cs rs) xs)) = []" for cs rs xs
    by (rule filter_none) (auto dest: capacity_out_type)
  show ?thesis
    by (simp add: recorded_def w c teacher_slots_out pairs_of_index filter_map comp_def case_prod_unfold)
qed

lemma recorded_room:
  "filter (has_type ''ROOM_CONFLICT'') (recorded sls snap) =
     map (\<lambda>(i, j). ROOM_CONFLICT (sls ! i) (sls ! j))
       (filter (\<lambda>(i, j). room_clash (sls ! i) (sls ! j)) (index_pairs (length sls)))"
proof -
  have w: "filter (has_type ''ROOM_CONFLICT'') (concat (map (workload_out ts) es)) = []" for ts es
    by (rule filter_none) (auto dest: workload_out_type)
  have c: "filter (has_type ''ROOM_CONFLICT'') (concat (map (capacity_out cs rs) xs)) = []" for cs rs xs
    by (rule filter_none) (auto dest: capacity_out_type)
  show ?thesis
    by (simp add: recorded_def w c room_slots_out pairs_of_index filter_map comp_def case_prod_unfold)
qed

lemma recorded_existing:
  "filter (has_type ''EXISTING_CONFLICT'') (recorded sls snap) =
     concat (map (\<lambda>s. map (EXISTING_CONFLICT s) (filter (existing_clash s) (existingTimetables snap))) sls)"
proof -
  have w: "filter (has_type ''EXISTING_CONFLICT'') (concat (map (workload_out ts) es)) = []" for ts es
    by (rule filter_none) (auto dest: workload_out_type)
  have c: "filter (has_type ''EXISTING_CONFLICT'') (concat (map (capacity_out cs rs) xs)) = []" for cs rs xs
    by (rule filter_none) (auto dest: capacity_out_type)
  show ?thesis
    by (simp add: recorded_def w c existing_slots_out)
qed

lemma recorded_workload:
  "filter (has_type ''WORKLOAD_EXCEEDED'') (recorded sls snap) =
     concat (map (workload_out (teachers snap))
       (Object_entries (calculateTeacherWorkloads sls (teachers snap))))"
proof -
  have s: "filter (has_type ''WORKLOAD_EXCEEDED'') (slots_out sls exs) = []" for exs
    by (rule filter_none) (auto dest: slots_out_type)
  have w: "filter (has_type ''WORKLOAD_EXCEEDED'') (concat (map (workload_out ts) es)) =
             concat (map (workload_out ts) es)" for ts es
    by (rule filter_all) (auto dest: workload_out_type)
  have c: "filter (has_type ''WORKLOAD_EXCEEDED'') (concat (map (capacity_out cs rs) xs)) = []" for cs rs xs
    by (rule filter_none) (auto dest: capacity_out_type)
  show ?thesis
    by (simp add: recorded_def s w c)
qed

lemma calculateFitness_recorded:
  "calculateFitness ind snap =
     (ind\<lparr>conflicts := recorded (slots ind) snap\<rparr>,
      max 0 (subtract_all 1 (recorded (slots ind) snap)))"
  by (simp add: calculateFitness_def fitness_acc_recorded)

lemma penalty_recorded_nonneg:
  assumes "c \<in> set (recorded sls snap)"
  shows "0 \<le> penalty c"
proof -
  consider "c \<in> set (slots_out sls (existingTimetables snap))"
    | e where "c \<in> set (workload_out (teachers snap) e)"
    | s where "c \<in> set (capacity_out (courses snap) (rooms snap) s)"
    using assms by (auto simp: recorded_def)
  then show ?thesis
  proof cases
    case 1
    from slots_out_type[OF 1] show ?thesis by (cases c) (simp_all add: double_of_nonneg)
  next
    case 2
    then obtain tid w mx where c: "c = WORKLOAD_EXCEEDED tid w mx" and lt: "of_int mx < w"
      by (auto simp: workload_out_def check_workload_def split: option.splits jsnum.splits if_splits)
    have "0 \<le> double_of (w - of_int mx)" using lt by (intro double_of_nonneg) simp
    moreover have "(0::rat) \<le> double_of (1 / 10)" by (intro double_of_nonneg) simp
    ultimately have "0 \<le> double_of (1 / 10) * double_of (w - of_int mx)" by (rule mult_nonneg_nonneg[rotated])
    then show ?thesis by (simp only: c penalty.simps fl_mul_def fl_sub_def double_of_nonneg)
  next
    case 3
    from capacity_out_type[OF 3] show ?thesis by (cases c) (simp_all add: double_of_nonneg)
  qed
qed

lemma subtract_all_le_1:
  "a \<le> 1 \<Longrightarrow> (\<And>c. c \<in> set cs \<Longrightarrow> 0 \<le> penalty c) \<Longrightarrow> subtract_all a cs \<le> 1"
proof (induction cs arbitrary: a)
  case Nil
  then show ?case by (simp add: subtract_all_Nil)
next
  case (Cons c cs)
  have "0 \<le> penalty c" using Cons.prems(2) by simp
  then have "a - penalty c \<le> 1" using Cons.prems(1) by simp
  then have "fl_sub a (penalty c) \<le> 1" unfolding fl_sub_def by (rule double_of_le_1)
  from Cons.IH[OF this] Cons.prems(2) have "subtract_all (fl_sub a (penalty c)) cs \<le> 1" by simp
  then show ?case by (simp add: subtract_all_def)
qed

lemma calculateFitness_le_1: "snd (calculateFitness ind snap) \<le> 1"
proof -
  have "subtract_all 1 (recorded (slots ind) snap) \<le> 1"
    by (rule subtract_all_le_1) (simp_all add: penalty_recorded_nonneg)
  then show ?thesis by (simp add: calculateFitness_recorded)
qed

subsection \<open>The evaluator on the sample data\<close>

lemmas ex_defs = ex_teacher1_def ex_teacher2_def ex_course1_def ex_room1_def ex_slot1_def
  ex_slot2_def ex_snapshot_def ex_individual_def

lemmas day_defs = ex_teacher3_def ex_slot_a_def ex_slot_b_def ex_slot_c_def ex_day_def
  ex_day_snapshot_def ex_course1_def ex_room1_def

lemmas fitness_eval = pair_out_def existing_out_def
  teacher_clash_def room_clash_def existing_clash_def timeOverlap_def moment_HHmm_def
  calculateTeacherWorkloads_def add_duration_def Object_entries_def array_index_def index_key_def
  workload_out_def check_workload_def capacity_out_def check_capacity_def fl_defs double_vals

lemma ex_workloads:
  "calculateTeacherWorkloads [ex_slot1, ex_slot2] [ex_teacher1, ex_teacher2] =
     [(''1'', Num 3), (''2'', Num 0)]"
  by (simp add: fitness_eval ex_defs)

lemma ex_recorded:
  "recorded [ex_slot1, ex_slot2] ex_snapshot =
     [TEACHER_CONFLICT ex_slot1 ex_slot2, ROOM_CONFLICT ex_slot1 ex_slot2,
      WORKLOAD_EXCEEDED ''1'' 3 2]"
  by (simp add: recorded_def fitness_eval ex_defs)

lemma ex_calculateFitness:
  "calculateFitness ex_individual ex_snapshot =
     (ex_individual\<lparr>conflicts :=
        [TEACHER_CONFLICT ex_slot1 ex_slot2, ROOM_CONFLICT ex_slot1 ex_slot2,
         WORKLOAD_EXCEEDED ''1'' 3 2]\<rparr>, 7205759403792791 / 36028797018963968)"
proof -
  have s: "slots ex_individual = [ex_slot1, ex_slot2]" by (simp add: ex_individual_def)
  show ?thesis unfolding calculateFitness_recorded s ex_recorded
    by (simp add: subtract_all_def fl_defs double_vals)
qed

lemma ex_day_workloads:
  "calculateTeacherWorkloads [ex_slot_a, ex_slot_b, ex_slot_c] [ex_teacher3] =
     [(''3'', Num (7881299347898369 / 1125899906842624))]"
  by (simp add: fitness_eval day_defs)

lemma ex_day_recorded:
  "recorded [ex_slot_a, ex_slot_b, ex_slot_c] ex_day_snapshot =
     [WORKLOAD_EXCEEDED ''3'' (7881299347898369 / 1125899906842624) 7]"
  by (simp add: recorded_def fitness_eval day_defs)

lemma ex_day_calculateFitness:
  "calculateFitness ex_day ex_day_snapshot =
     (ex_day\<lparr>conflicts := [WORKLOAD_EXCEEDED ''3'' (7881299347898369 / 1125899906842624) 7]\<rparr>,
      9007199254740991 / 9007199254740992)"
proof -
  have s: "slots ex_day = [ex_slot_a, ex_slot_b, ex_slot_c]" by (simp add: ex_day_def)
  show ?thesis unfolding calculateFitness_recorded s ex_day_recorded
    by (simp add: subtract_all_def fl_defs double_vals)
qed

lemma ex_existing_calculateFitness:
  "calculateFitness \<lparr>slots = [ex_slot1], conflicts = [], fitness = 0\<rparr>
     (ex_snapshot\<lparr>existingTimetables := [ex_existing]\<rparr>) =
     (\<lparr>slots = [ex_slot1], conflicts = [EXISTING_CONFLICT ex_slot1 ex_existing], fitness = 0\<rparr>,
      3602879701896397 / 4503599627370496)"
proof -
  have r: "recorded [ex_slot1] (ex_snapshot\<lparr>existingTimetables := [ex_existing]\<rparr>) =
      [EXISTING_CONFLICT ex_slot1 ex_existing]"
    by (simp add: recorded_def fitness_eval ex_defs ex_existing_def)
  show ?thesis unfolding calculateFitness_recorded
    by (simp add: r subtract_all_def fl_defs double_vals)
qed

lemmas tight_defs = ex_teacher_a_def ex_teacher_b_def ex_slot_lab_def ex_slot_other_def
  ex_tight_def ex_tight_snapshot_def ex_course1_def ex_room1_def ex_lab_def

lemma ex_tight_calculateFitness:
  "calculateFitness ex_tight ex_tight_snapshot =
     (ex_tight\<lparr>conflicts :=
        [WORKLOAD_EXCEEDED ''a'' (3 / 2) 1, WORKLOAD_EXCEEDED ''b'' (3 / 2) 1,
         CAPACITY_EXCEEDED ex_slot_lab ex_course1 ex_lab]\<rparr>,
      7205759403792793 / 9007199254740992)"
proof -
  have s: "slots ex_tight = [ex_slot_lab, ex_slot_other]" by (simp add: ex_tight_def)
  have r: "recorded [ex_slot_lab, ex_slot_other] ex_tight_snapshot =
      [WORKLOAD_EXCEEDED ''a'' (3 / 2) 1, WORKLOAD_EXCEEDED ''b'' (3 / 2) 1,
       CAPACITY_EXCEEDED ex_slot_lab ex_course1 ex_lab]"
    by (simp add: recorded_def fitness_eval tight_defs)
  show ?thesis unfolding calculateFitness_recorded s r
    by (simp add: subtract_all_def fl_defs double_vals)
qed

subsection \<open>Clash penalties\<close>

text \<open>
  C1. The evaluator starts from 1 and leaves in the individual the conflicts
  it recorded, in the order \<open>recorded\<close>. For every pair of positions \<open>i < j\<close>
  of the individual it records a \<open>TEACHER_CONFLICT\<close> and subtracts 0.3 when
  the two slots have the same teacher, the same day and overlapping times, and
  records a \<open>ROOM_CONFLICT\<close> and subtracts 0.4 when they have the same room,
  the same day and overlapping times. For every slot and every committed entry
  with the same teacher, the same day and overlapping times it records an
  \<open>EXISTING_CONFLICT\<close> and subtracts 0.2. The fitness left is what the
  subtraction of doubles gives when the penalties of the recorded conflicts
  are taken from 1 one after the other, in the order recorded; the value
  returned is the maximum of 0 and that. Nothing else clamps it, and it is at
  most 1 because nothing is ever added.
\<close>

theorem calculateFitness_penalties:
  "(let sls = slots ind;
        cs = conflicts (fst (calculateFitness ind snap))
    in cs = recorded sls snap \<and>
       filter (has_type ''TEACHER_CONFLICT'') cs =
         map (\<lambda>(i, j). TEACHER_CONFLICT (sls ! i) (sls ! j))
           (filter (\<lambda>(i, j). teacher_clash (sls ! i) (sls ! j)) (index_pairs (length sls))) \<and>
       filter (has_type ''ROOM_CONFLICT'') cs =
         map (\<lambda>(i, j). ROOM_CONFLICT (sls ! i) (sls ! j))
           (filter (\<lambda>(i, j). room_clash (sls ! i) (sls ! j)) (index_pairs (length sls))) \<and>
       filter (has_type ''EXISTING_CONFLICT'') cs =
         concat (map (\<lambda>s. map (EXISTING_CONFLICT s)
           (filter (existing_clash s) (existingTimetables snap))) sls) \<and>
       (\<forall>c\<in>set cs. has_type ''TEACHER_CONFLICT'' c \<longrightarrow> penalty c = double_of (3 / 10)) \<and>
       (\<forall>c\<in>set cs. has_type ''ROOM_CONFLICT'' c \<longrightarrow> penalty c = double_of (4 / 10)) \<and>
       (\<forall>c\<in>set cs. has_type ''EXISTING_CONFLICT'' c \<longrightarrow> penalty c = double_of (2 / 10)) \<and>
       snd (calculateFitness ind snap) = max 0 (foldl fl_sub 1 (map penalty cs)) \<and>
       snd (calculateFitness ind snap) \<le> 1)"
proof -
  let ?cs = "recorded (slots ind) snap"
  have c: "conflicts (fst (calculateFitness ind snap)) = ?cs"
    by (simp add: calculateFitness_recorded)
  have f: "snd (calculateFitness ind snap) = max 0 (foldl fl_sub 1 (map penalty ?cs))"
    by (simp add: calculateFitness_recorded subtract_all_def)
  have p1: "\<forall>c\<in>set ?cs. has_type ''TEACHER_CONFLICT'' c \<longrightarrow> penalty c = double_of (3 / 10)"
  proof (intro ballI impI)
    fix c assume "conflict_type c = ''TEACHER_CONFLICT''"
    then show "penalty c = double_of (3 / 10)" by (cases c) simp_all
  qed
  have p2: "\<forall>c\<in>set ?cs. has_type ''ROOM_CONFLICT'' c \<longrightarrow> penalty c = double_of (4 / 10)"
  proof (intro ballI impI)
    fix c assume "conflict_type c = ''ROOM_CONFLICT''"
    then show "penalty c = double_of (4 / 10)" by (cases c) simp_all
  qed
  have p3: "\<forall>c\<in>set ?cs. has_type ''EXISTING_CONFLICT'' c \<longrightarrow> penalty c = double_of (2 / 10)"
  proof (intro ballI impI)
    fix c assume "conflict_type c = ''EXISTING_CONFLICT''"
    then show "penalty c = double_of (2 / 10)" by (cases c) simp_all
  qed
  note le = calculateFitness_le_1[of ind snap]
  show ?thesis
    unfolding Let_def c
    by (intro conjI recorded_teacher recorded_room recorded_existing refl p1 p2 p3 f le)
qed

text \<open>
  The two sample slots clash by teacher and by room, and their teacher is one
  hour over: 1 - 0.3 - 0.4 - 0.1 in doubles is 0.19999999999999993. And one
  slot from 09:00 against a committed entry of its teacher from \<open>9:00\<close>: an
  \<open>EXISTING_CONFLICT\<close>, and the fitness left is the double 0.8.
\<close>

theorem calculateFitness_penalties_witness:
  "conflicts (fst (calculateFitness ex_individual ex_snapshot)) =
     [TEACHER_CONFLICT ex_slot1 ex_slot2, ROOM_CONFLICT ex_slot1 ex_slot2,
      WORKLOAD_EXCEEDED ''1'' 3 2] \<and>
   snd (calculateFitness ex_individual ex_snapshot) =
     max 0 (fl_sub (fl_sub (fl_sub 1 (double_of (3 / 10))) (double_of (4 / 10)))
              (fl_mul (double_of (1 / 10)) (fl_sub 3 2))) \<and>
   snd (calculateFitness ex_individual ex_snapshot) = 7205759403792791 / 36028797018963968 \<and>
   calculateFitness \<lparr>slots = [ex_slot1], conflicts = [], fitness = 0\<rparr>
     (ex_snapshot\<lparr>existingTimetables := [ex_existing]\<rparr>) =
     (\<lparr>slots = [ex_slot1], conflicts = [EXISTING_CONFLICT ex_slot1 ex_existing], fitness = 0\<rparr>,
      3602879701896397 / 4503599627370496)"
proof -
  have g1: "conflicts (fst (calculateFitness ex_individual ex_snapshot)) =
     [TEACHER_CONFLICT ex_slot1 ex_slot2, ROOM_CONFLICT ex_slot1 ex_slot2,
      WORKLOAD_EXCEEDED ''1'' 3 2]"
    by (simp add: ex_calculateFitness)
  from calculateFitness_penalties[of ex_individual ex_snapshot, unfolded Let_def]
  have f: "snd (calculateFitness ex_individual ex_snapshot) =
      max 0 (foldl fl_sub 1 (map penalty (conflicts (fst (calculateFitness ex_individual ex_snapshot)))))"
    by blast
  have g2: "snd (calculateFitness ex_individual ex_snapshot) =
     max 0 (fl_sub (fl_sub (fl_sub 1 (double_of (3 / 10))) (double_of (4 / 10)))
              (fl_mul (double_of (1 / 10)) (fl_sub 3 2)))"
    using f unfolding g1 by simp
  have g3: "snd (calculateFitness ex_individual ex_snapshot) = 7205759403792791 / 36028797018963968"
    by (simp add: ex_calculateFitness)
  show ?thesis by (intro conjI g1 g2 g3 ex_existing_calculateFitness)
qed

subsection \<open>Time overlap\<close>

text \<open>
  C2. For clock strings that parse, two ranges overlap exactly when each starts
  strictly before the other ends. Ranges that touch at an endpoint do not
  overlap: 09:00-10:30 against 10:30-11:30 does not, 09:00-10:30 against
  10:00-11:30 does. An hour written with one digit is read like the same hour
  with two.
\<close>

theorem timeOverlap_strict:
  "(\<forall>start1 end1 start2 end2 s1 e1 s2 e2.
      moment_HHmm start1 = Some s1 \<and> moment_HHmm end1 = Some e1 \<and>
      moment_HHmm start2 = Some s2 \<and> moment_HHmm end2 = Some e2 \<longrightarrow>
      (timeOverlap start1 end1 start2 end2 \<longleftrightarrow> s1 < e2 \<and> s2 < e1)) \<and>
   (\<forall>start1 end1 start2 end2.
      moment_HHmm end1 = moment_HHmm start2 \<or> moment_HHmm end2 = moment_HHmm start1 \<longrightarrow>
      \<not> timeOverlap start1 end1 start2 end2) \<and>
   \<not> timeOverlap ''09:00'' ''10:30'' ''10:30'' ''11:30'' \<and>
   timeOverlap ''09:00'' ''10:30'' ''10:00'' ''11:30'' \<and>
   timeOverlap ''9:00'' ''10:30'' ''10:00'' ''11:30'' \<and>
   timeOverlap ''7:00'' ''9:30'' ''8:00'' ''9:00'' \<and>
   \<not> timeOverlap ''9:00'' ''10:30'' ''10:30'' ''11:30''"
proof (intro conjI allI impI)
  fix start1 end1 start2 end2 s1 e1 s2 e2
  assume "moment_HHmm start1 = Some s1 \<and> moment_HHmm end1 = Some e1 \<and>
      moment_HHmm start2 = Some s2 \<and> moment_HHmm end2 = Some e2"
  then show "timeOverlap start1 end1 start2 end2 \<longleftrightarrow> s1 < e2 \<and> s2 < e1"
    by (simp add: timeOverlap_def)
next
  fix start1 end1 start2 end2
  assume a: "moment_HHmm end1 = moment_HHmm start2 \<or> moment_HHmm end2 = moment_HHmm start1"
  have irr: "\<not> isBefore x x" for x by (cases x) simp_all
  from a show "\<not> timeOverlap start1 end1 start2 end2"
    by (auto simp: timeOverlap_def Let_def irr)
next
  show "\<not> timeOverlap ''09:00'' ''10:30'' ''10:30'' ''11:30''"
    by (simp add: timeOverlap_def moment_HHmm_def)
next
  show "timeOverlap ''09:00'' ''10:30'' ''10:00'' ''11:30''"
    by (simp add: timeOverlap_def moment_HHmm_def)
next
  show "timeOverlap ''9:00'' ''10:30'' ''10:00'' ''11:30''"
    by (simp add: timeOverlap_def moment_HHmm_def)
next
  show "timeOverlap ''7:00'' ''9:30'' ''8:00'' ''9:00''"
    by (simp add: timeOverlap_def moment_HHmm_def)
next
  show "\<not> timeOverlap ''9:00'' ''10:30'' ''10:30'' ''11:30''"
    by (simp add: timeOverlap_def moment_HHmm_def)
qed

text \<open>Two periods that touch at 14:30, the first written without its minutes' colon.\<close>

theorem timeOverlap_strict_witness:
  "moment_HHmm ''1300'' = Some 780 \<and> moment_HHmm ''14:30'' = Some 870 \<and>
   moment_HHmm ''14:30'' = Some 870 \<and> moment_HHmm ''16:15'' = Some 975 \<and>
   (timeOverlap ''1300'' ''14:30'' ''14:30'' ''16:15'' \<longleftrightarrow> (780::nat) < 975 \<and> (870::nat) < 870)"
proof -
  have m: "moment_HHmm ''1300'' = Some 780" "moment_HHmm ''14:30'' = Some 870"
    "moment_HHmm ''16:15'' = Some 975"
    by (simp_all add: moment_HHmm_def)
  from timeOverlap_strict have
    "moment_HHmm ''1300'' = Some 780 \<and> moment_HHmm ''14:30'' = Some 870 \<and>
      moment_HHmm ''14:30'' = Some 870 \<and> moment_HHmm ''16:15'' = Some 975 \<longrightarrow>
      (timeOverlap ''1300'' ''14:30'' ''14:30'' ''16:15'' \<longleftrightarrow> (780::nat) < 975 \<and> (870::nat) < 870)"
    by blast
  with m show ?thesis by blast
qed

subsection \<open>Workload\<close>

text \<open>
  C6. With distinct teacher identifiers and slots whose times parse, the
  workload table holds for every teacher the sum of the hours of that teacher's
  slots (0 for a teacher without slots; 3 for two slots of 1.5 hours). For every
  teacher whose workload exceeds \<open>maxWorkload\<close>, and for no other, the
  evaluator records one \<open>WORKLOAD_EXCEEDED\<close> with that workload and limit, the
  teachers taken in the order of the table's keys; with each record it
  subtracts the product of 0.1 and the excess, whatever its size. Hours, sums,
  excess and product are those of doubles.
\<close>

theorem workload_aggregation:
  assumes "distinct (map teacher_id (teachers snap))"
    and "\<forall>s\<in>set (slots ind). valid_times s"
  shows
  "(let sls = slots ind; ts = teachers snap;
        cs = conflicts (fst (calculateFitness ind snap));
        over = filter (exceeds_workload sls) (entries_order ts)
    in (\<forall>t\<in>set ts. map_of (calculateTeacherWorkloads sls ts) (teacher_id t) =
           Some (Num (workload sls (teacher_id t)))) \<and>
       (\<forall>t\<in>set ts. (\<forall>s\<in>set sls. teacherId s \<noteq> teacher_id t) \<longrightarrow>
           map_of (calculateTeacherWorkloads sls ts) (teacher_id t) = Some (Num 0)) \<and>
       mset (entries_order ts) = mset ts \<and>
       filter (has_type ''WORKLOAD_EXCEEDED'') cs =
         map (\<lambda>t. WORKLOAD_EXCEEDED (teacher_id t) (workload sls (teacher_id t)) (maxWorkload t)) over \<and>
       (\<forall>t\<in>set over.
          penalty (WORKLOAD_EXCEEDED (teacher_id t) (workload sls (teacher_id t)) (maxWorkload t)) =
            fl_mul (double_of (1 / 10)) (fl_sub (workload sls (teacher_id t)) (of_int (maxWorkload t)))) \<and>
       snd (calculateFitness ind snap) = max 0 (foldl fl_sub 1 (map penalty cs))) \<and>
   calculateTeacherWorkloads [ex_slot1, ex_slot2] [ex_teacher1, ex_teacher2] =
     [(''1'', Num 3), (''2'', Num 0)]"
proof -
  let ?sls = "slots ind" and ?ts = "teachers snap"
  let ?cs = "recorded ?sls snap"
  let ?over = "filter (exceeds_workload ?sls) (entries_order ?ts)"
  let ?rec = "\<lambda>t. WORKLOAD_EXCEEDED (teacher_id t) (workload ?sls (teacher_id t)) (maxWorkload t)"
  have c: "conflicts (fst (calculateFitness ind snap)) = ?cs"
    by (simp add: calculateFitness_recorded)
  have f: "snd (calculateFitness ind snap) = max 0 (foldl fl_sub 1 (map penalty ?cs))"
    by (simp add: calculateFitness_recorded subtract_all_def)
  have tab: "calculateTeacherWorkloads ?sls ?ts =
      map (\<lambda>k. (k, Num (workload ?sls k))) (map teacher_id ?ts)"
    by (simp add: workloads_table[OF assms] comp_def)
  have g1: "\<forall>t\<in>set ?ts. map_of (calculateTeacherWorkloads ?sls ?ts) (teacher_id t) =
           Some (Num (workload ?sls (teacher_id t)))"
  proof
    fix t assume "t \<in> set ?ts"
    then have "teacher_id t \<in> set (map teacher_id ?ts)" by simp
    then show "map_of (calculateTeacherWorkloads ?sls ?ts) (teacher_id t) =
           Some (Num (workload ?sls (teacher_id t)))"
      by (simp only: tab map_of_table if_True)
  qed
  have z: "workload ?sls k = 0" if "\<forall>s\<in>set ?sls. teacherId s \<noteq> k" for k
  proof -
    have "filter (\<lambda>s. teacherId s = k) ?sls = []" by (rule filter_none) (use that in auto)
    then show ?thesis by (simp add: workload_def)
  qed
  have g2: "\<forall>t\<in>set ?ts. (\<forall>s\<in>set ?sls. teacherId s \<noteq> teacher_id t) \<longrightarrow>
           map_of (calculateTeacherWorkloads ?sls ?ts) (teacher_id t) = Some (Num 0)"
    using g1 z by simp
  have g3: "filter (has_type ''WORKLOAD_EXCEEDED'') ?cs = map ?rec ?over"
    unfolding recorded_workload by (rule workload_conflicts_order[OF assms])
  have g4: "\<forall>t\<in>set ?over. penalty (?rec t) =
      fl_mul (double_of (1 / 10)) (fl_sub (workload ?sls (teacher_id t)) (of_int (maxWorkload t)))"
    by simp
  note ex = ex_workloads and m = mset_entries_order[of ?ts]
  show ?thesis
    unfolding Let_def c
    by (intro conjI g1 g2 g3 g4 f m ex)
qed

text \<open>
  Two slots of 1.5 hours for teacher 1, none for teacher 2. And the day of
  three slots: 66, 177 and 177 minutes make 7 hours, but the doubles 1.1, 2.95
  and 2.95 add up to 7.000000000000001, which exceeds the limit of 7.
\<close>

theorem workload_aggregation_witness:
  "distinct (map teacher_id (teachers ex_snapshot)) \<and>
   slots ex_individual = [ex_slot1, ex_slot2] \<and> valid_times ex_slot1 \<and> valid_times ex_slot2 \<and>
   map_of (calculateTeacherWorkloads (slots ex_individual) (teachers ex_snapshot)) ''1'' = Some (Num 3) \<and>
   map_of (calculateTeacherWorkloads (slots ex_individual) (teachers ex_snapshot)) ''2'' = Some (Num 0) \<and>
   filter (has_type ''WORKLOAD_EXCEEDED'') (conflicts (fst (calculateFitness ex_individual ex_snapshot))) =
     [WORKLOAD_EXCEEDED ''1'' 3 2] \<and>
   snd (calculateFitness ex_individual ex_snapshot) = 7205759403792791 / 36028797018963968 \<and>
   calculateFitness ex_day ex_day_snapshot =
     (ex_day\<lparr>conflicts := [WORKLOAD_EXCEEDED ''3'' (7881299347898369 / 1125899906842624) 7]\<rparr>,
      9007199254740991 / 9007199254740992)"
proof -
  have h1: "distinct (map teacher_id (teachers ex_snapshot))" by (simp add: ex_defs)
  have h2: "\<forall>s\<in>set (slots ex_individual). valid_times s"
    by (simp add: ex_defs valid_times_def moment_HHmm_def)
  have s: "slots ex_individual = [ex_slot1, ex_slot2]"
    and t: "teachers ex_snapshot = [ex_teacher1, ex_teacher2]"
    by (simp_all add: ex_individual_def ex_snapshot_def)
  have i: "teacher_id ex_teacher1 = ''1''" "teacher_id ex_teacher2 = ''2''"
    by (simp_all add: ex_defs)
  show ?thesis
    using workload_aggregation[OF h1 h2] h1 h2
    unfolding ex_calculateFitness ex_day_calculateFitness s t ex_workloads
    by (simp add: i)
qed

subsection \<open>Suggestions\<close>

lemma fold_try_timeSlot:
  "fold (try_timeSlot sl allSlots day) tss alts =
     alts @ map as_alternative (filter (free_for sl allSlots) (map (Pair day) tss))"
  by (induction tss arbitrary: alts)
     (simp_all add: try_timeSlot_def hasConflict_def free_for_def as_alternative_def)

lemma fold_days:
  "fold (\<lambda>day alts. fold (try_timeSlot sl allSlots day) tss alts) ds alts =
     alts @ map as_alternative (filter (free_for sl allSlots) (List.product ds tss))"
  by (induction ds arbitrary: alts) (simp_all add: fold_try_timeSlot)

lemma findAlternativeTimes_catalog:
  "findAlternativeTimes sl allSlots =
     map as_alternative (take 3 (filter (free_for sl allSlots) catalog))"
  by (simp add: findAlternativeTimes_def fold_days catalog_def take_map)

lemma find_filter: "find P xs = (case filter P xs of [] \<Rightarrow> None | x # _ \<Rightarrow> Some x)"
  by (induction xs) simp_all

lemma ge_field_students:
  "ge_field n f \<longleftrightarrow> (case students_to_hold f of None \<Rightarrow> False | Some m \<Rightarrow> n \<ge> m)"
  by (cases f) simp_all

lemma room_change_suggestions:
  "room_change rs c suggestions = suggestions @ room_suggestions rs c"
proof (cases c)
  case (CAPACITY_EXCEEDED sl co r)
  show ?thesis
  proof (cases "students_to_hold (maxStudents co)")
    case None
    then show ?thesis by (simp add: CAPACITY_EXCEEDED ge_field_students)
  next
    case (Some m)
    have "filter (\<lambda>r. capacity r \<ge> m \<and> roomType r = ''CLASSROOM'') rs =
          filter (\<lambda>r. roomType r = ''CLASSROOM'' \<and> capacity r \<ge> m) rs"
      by (rule filter_cong) auto
    then show ?thesis
      by (simp add: CAPACITY_EXCEEDED Some ge_field_students first_classroom_def find_filter
          split: list.splits)
  qed
qed simp_all

lemma time_change_suggestions:
  "time_change allSlots c suggestions = suggestions @ time_suggestions allSlots c"
  by (cases c) (simp_all add: findAlternativeTimes_catalog)

lemma fold_append_out:
  assumes "\<And>x acc. step x acc = acc @ out x"
  shows "fold step xs acc = acc @ concat (map out xs)"
  by (induction xs arbitrary: acc) (simp_all add: assms)

lemma generateSuggestions_eq:
  "generateSuggestions ind snap =
     concat (map (room_suggestions (rooms snap)) (conflicts ind)) @
     concat (map (time_suggestions (slots ind)) (conflicts ind))"
  unfolding generateSuggestions_def
  by (simp add: fold_append_out[of "room_change rs" "room_suggestions rs" for rs, OF room_change_suggestions]
      fold_append_out[of "time_change sl" "time_suggestions sl" for sl, OF time_change_suggestions])

subsection \<open>Random draws and the genetic operators\<close>

lemma Math_random_range: "0 \<le> Math_random rnd pos \<and> Math_random rnd pos < 1"
proof -
  have "of_int \<lfloor>rnd pos\<rfloor> \<le> rnd pos" "rnd pos < of_int \<lfloor>rnd pos\<rfloor> + 1"
    by linarith+
  then show ?thesis by (simp add: Math_random_def)
qed

lemma random_index_less:
  assumes "0 < n"
  shows "random_index rnd pos n < n"
proof -
  let ?r = "Math_random rnd pos"
  have r: "0 \<le> ?r" "?r < 1" using Math_random_range by auto
  have nn: "0 \<le> ?r * of_nat n" using r by simp
  have "?r * of_nat n < of_nat n" using r assms by simp
  then have "\<lfloor>?r * of_nat n\<rfloor> < int n" by (simp add: floor_less_iff)
  moreover have "0 \<le> \<lfloor>?r * of_nat n\<rfloor>" using nn by simp
  ultimately show ?thesis unfolding random_index_def by linarith
qed

lemma crossover_fold:
  assumes "n \<le> max (length (slots p1)) (length (slots p2))"
  shows "fold (crossover_step rnd p1 p2) [0..<n] ([], pos) =
           (map (crossover_pick rnd pos (slots p1) (slots p2)) [0..<n],
            pos + min n (min (length (slots p1)) (length (slots p2))))"
  using assms
proof (induction n)
  case 0
  then show ?case by simp
next
  case (Suc n)
  then have IH: "fold (crossover_step rnd p1 p2) [0..<n] ([], pos) =
           (map (crossover_pick rnd pos (slots p1) (slots p2)) [0..<n],
            pos + min n (min (length (slots p1)) (length (slots p2))))"
    and n: "n < max (length (slots p1)) (length (slots p2))" by simp_all
  have "fold (crossover_step rnd p1 p2) [0..<Suc n] ([], pos) =
          crossover_step rnd p1 p2 n (fold (crossover_step rnd p1 p2) [0..<n] ([], pos))"
    by simp
  also have "\<dots> = crossover_step rnd p1 p2 n
       (map (crossover_pick rnd pos (slots p1) (slots p2)) [0..<n],
        pos + min n (min (length (slots p1)) (length (slots p2))))"
    by (simp only: IH)
  also have "\<dots> = (map (crossover_pick rnd pos (slots p1) (slots p2)) [0..<Suc n],
            pos + min (Suc n) (min (length (slots p1)) (length (slots p2))))"
    using n by (auto simp: crossover_step_def js_nth_def crossover_pick_def min_def)
  finally show ?case .
qed

lemma crossover_slots:
  "slots (fst (crossover rnd pos p1 p2)) =
     map (crossover_pick rnd pos (slots p1) (slots p2))
       [0..<max (length (slots p1)) (length (slots p2))]"
  by (simp add: crossover_def crossover_fold Let_def)

text \<open>
  C5. The child of a crossover has as many slots as the longer parent. At an
  index where both parents have a slot the child has one of the two, the first
  parent's when the draw for that index is below one half; at an index where
  only one parent has a slot the child has that slot. A parent of 5 slots and a
  parent of 3 slots give a child of 5 slots.
\<close>

theorem crossover_length_max:
  "(let a = slots parent1; b = slots parent2;
        child = slots (fst (crossover rnd pos parent1 parent2))
    in length child = max (length a) (length b) \<and>
       (\<forall>i. i < length a \<and> i < length b \<longrightarrow>
            child ! i = (if Math_random rnd (pos + i) < 1 / 2 then a ! i else b ! i)) \<and>
       (\<forall>i. i < length a \<and> length b \<le> i \<longrightarrow> child ! i = a ! i) \<and>
       (\<forall>i. length a \<le> i \<and> i < length b \<longrightarrow> child ! i = b ! i) \<and>
       (length a = 5 \<and> length b = 3 \<longrightarrow> length child = 5))"
  unfolding Let_def crossover_slots
  by (auto simp: crossover_pick_def)

lemma generateRandomSlot_ids:
  "generateRandomSlot rnd pos c t rs = Inr (sl, pos') \<Longrightarrow>
     courseId sl = course_id c \<and> teacherId sl = teacher_id t \<and> pos' = pos + 3"
  by (auto simp: generateRandomSlot_def Let_def split: option.splits)

lemma generateRandomSlot_ok:
  assumes "rs \<noteq> []"
  shows "\<exists>sl. generateRandomSlot rnd pos c t rs = Inr (sl, pos + 3)"
proof -
  have "random_index rnd (pos + 2) (length rs) < length rs"
    by (rule random_index_less) (use assms in simp)
  then show ?thesis by (simp add: generateRandomSlot_def Let_def js_nth_def)
qed

lemma find_Some_id: "find (\<lambda>c. course_id c = k) cs = Some c \<Longrightarrow> course_id c = k"
  by (auto simp: find_Some_iff)

lemma mutate_step_courseIds:
  assumes "mutate_step rnd snap i st = Inr st'"
  shows "map courseId (fst st') = map courseId (fst st)"
proof -
  have upd: "map courseId ((fst st)[i := sl]) = map courseId (fst st)"
    if "courseId sl = courseId (fst st ! i)" for sl
    using that by (simp add: map_update list_update_same_conv[THEN iffD2] nth_map)
       (metis length_map list_update_beyond list_update_id map_update not_le_imp_less nth_map)
  show ?thesis
    using assms
    by (auto simp: mutate_step_def split: if_splits option.splits sum.splits
        dest!: generateRandomSlot_ids find_Some_id intro!: upd)
qed

lemma mutate_loop_courseIds:
  "mutate_loop rnd snap is st = Inr st' \<Longrightarrow> map courseId (fst st') = map courseId (fst st)"
proof (induction "is" arbitrary: st)
  case Nil
  then show ?case by simp
next
  case (Cons i "is")
  then show ?case
    by (auto split: sum.splits dest: mutate_step_courseIds)
qed

lemma mutate_courseIds:
  "mutate rnd pos ind snap = Inr (ind', pos') \<Longrightarrow>
     map courseId (slots ind') = map courseId (slots ind)"
  by (auto simp: mutate_def split: sum.splits dest: mutate_loop_courseIds)

lemma random_slots_courseIds:
  "random_slots rnd snap cs st = Inr (sls, pos') \<Longrightarrow>
     map courseId sls = map courseId (fst st) @ map course_id (filter (resolvable snap) cs)"
proof (induction cs arbitrary: st)
  case Nil
  then show ?case by simp
next
  case (Cons c cs)
  show ?case
  proof (cases "find (\<lambda>t. teacher_id t = course_teacherId c) (teachers snap)")
    case None
    then show ?thesis using Cons by (simp add: resolvable_def)
  next
    case (Some t)
    then obtain sl p where g: "generateRandomSlot rnd (snd st) c t (rooms snap) = Inr (sl, p)"
      and r: "random_slots rnd snap cs (fst st @ [sl], p) = Inr (sls, pos')"
      using Cons.prems by (auto split: sum.splits)
    from Cons.IH[OF r] generateRandomSlot_ids[OF g] Some show ?thesis
      by (simp add: resolvable_def)
  qed
qed

lemma initializePopulation_genes:
  "initializePopulation rnd pos n snap = Inr (population, pos') \<Longrightarrow>
     length population = n \<and> (\<forall>ind\<in>set population. one_gene_per_course snap ind)"
proof (induction n arbitrary: pos population pos')
  case 0
  then show ?case by simp
next
  case (Suc n)
  then obtain sls p1 rest where
    s: "random_slots rnd snap (courses snap) ([], pos) = Inr (sls, p1)" and
    i: "initializePopulation rnd p1 n snap = Inr (rest, pos')" and
    p: "population = \<lparr>slots = sls, conflicts = [], fitness = 0\<rparr> # rest"
    by (auto split: sum.splits)
  from random_slots_courseIds[OF s] Suc.IH[OF i] p show ?case
    by (simp add: one_gene_per_course_def)
qed

lemma crossover_genes:
  assumes "one_gene_per_course snap p1" and "one_gene_per_course snap p2"
  shows "one_gene_per_course snap (fst (crossover rnd pos p1 p2))"
proof -
  let ?ids = "map course_id (filter (resolvable snap) (courses snap))"
  have a: "map courseId (slots p1) = ?ids" and b: "map courseId (slots p2) = ?ids"
    using assms by (simp_all add: one_gene_per_course_def)
  have la: "length (slots p1) = length ?ids" and lb: "length (slots p2) = length ?ids"
    using a b by (metis length_map)+
  have n1: "courseId (slots p1 ! i) = ?ids ! i" if "i < length ?ids" for i
    using that a la by (metis nth_map)
  have n2: "courseId (slots p2 ! i) = ?ids ! i" if "i < length ?ids" for i
    using that b lb by (metis nth_map)
  have "map courseId (slots (fst (crossover rnd pos p1 p2))) = map ((!) ?ids) [0..<length ?ids]"
    unfolding crossover_slots la lb
    by (auto simp: crossover_pick_def la lb n1 n2)
  then show ?thesis by (simp only: one_gene_per_course_def map_nth)
qed

lemma free_for_no_overlap:
  assumes "free_for sl allSlots e" and "s \<in> set allSlots"
    and "teacherId s = teacherId sl" and "dayOfWeek s = fst e"
  shows "\<not> timeOverlap (startTime s) (endTime s) (fst (snd e)) (snd (snd e))"
  using assms by (auto simp: free_for_def list_ex_iff)

text \<open>
  C8. The suggestions are, first, for every recorded \<open>CAPACITY_EXCEEDED\<close> in
  order, a \<open>ROOM_CHANGE\<close> to the first room of the room list that is a
  \<open>CLASSROOM\<close> and holds the course's \<open>maxStudents\<close> (0 for a
  \<open>maxStudents\<close> of \<open>null\<close>), and nothing when there is no such room or
  the course has no \<open>maxStudents\<close>; then, for every recorded \<open>TEACHER_CONFLICT\<close> or
  \<open>ROOM_CONFLICT\<close>, a \<open>TIME_CHANGE\<close> for the first slot of the pair. Its
  alternatives are the first three entries of the day by period catalog that no
  slot of the same teacher in the individual overlaps: at most three, in
  catalog order, none overlapping another slot of that teacher (nor the slot
  itself, which is one of the slots of its teacher).
\<close>

theorem generateSuggestions_spec:
  "generateSuggestions ind snap =
     concat (map (room_suggestions (rooms snap)) (conflicts ind)) @
     concat (map (time_suggestions (slots ind)) (conflicts ind)) \<and>
   (\<forall>sl allSlots.
      findAlternativeTimes sl allSlots =
        map as_alternative (take 3 (filter (free_for sl allSlots) catalog)) \<and>
      length (findAlternativeTimes sl allSlots) \<le> 3 \<and>
      (\<forall>a s. a \<in> set (findAlternativeTimes sl allSlots) \<and> s \<in> set allSlots \<and>
             teacherId s = teacherId sl \<and> dayOfWeek s = alt_dayOfWeek a \<longrightarrow>
             \<not> timeOverlap (startTime s) (endTime s) (alt_startTime a) (alt_endTime a)))"
proof (intro conjI allI impI)
  show "generateSuggestions ind snap =
     concat (map (room_suggestions (rooms snap)) (conflicts ind)) @
     concat (map (time_suggestions (slots ind)) (conflicts ind))"
    by (rule generateSuggestions_eq)
next
  fix sl allSlots
  show "findAlternativeTimes sl allSlots =
        map as_alternative (take 3 (filter (free_for sl allSlots) catalog))"
    by (rule findAlternativeTimes_catalog)
  show "length (findAlternativeTimes sl allSlots) \<le> 3"
    by (simp add: findAlternativeTimes_catalog)
next
  fix sl allSlots a s
  assume h: "a \<in> set (findAlternativeTimes sl allSlots) \<and> s \<in> set allSlots \<and>
             teacherId s = teacherId sl \<and> dayOfWeek s = alt_dayOfWeek a"
  then obtain e where e: "e \<in> set (take 3 (filter (free_for sl allSlots) catalog))"
    and a: "a = as_alternative e"
    by (auto simp: findAlternativeTimes_catalog)
  from e have "e \<in> set (filter (free_for sl allSlots) catalog)" by (rule in_set_takeD)
  then have f: "free_for sl allSlots e" by simp
  have "dayOfWeek s = fst e" using h a by (simp add: as_alternative_def)
  from free_for_no_overlap[OF f _ _ this] h
  show "\<not> timeOverlap (startTime s) (endTime s) (alt_startTime a) (alt_endTime a)"
    by (simp add: a as_alternative_def)
qed

lemma ex_alternatives:
  "findAlternativeTimes ex_slot1 [ex_slot1, ex_slot3] =
     [\<lparr>alt_dayOfWeek = 1, alt_startTime = ''10:45'', alt_endTime = ''12:15''\<rparr>,
      \<lparr>alt_dayOfWeek = 1, alt_startTime = ''13:00'', alt_endTime = ''14:30''\<rparr>,
      \<lparr>alt_dayOfWeek = 1, alt_startTime = ''14:45'', alt_endTime = ''16:15''\<rparr>]"
  by (simp add: findAlternativeTimes_def try_timeSlot_def hasConflict_def days_def timeSlots_def
      timeOverlap_def moment_HHmm_def ex_slot1_def ex_slot3_def)

text \<open>A room conflict between two teachers and a course of 25 in a lab of 20: the first classroom is proposed, and the three periods after the slot's own.\<close>

theorem generateSuggestions_spec_witness:
  "generateSuggestions
     \<lparr>slots = [ex_slot1, ex_slot3],
      conflicts = [ROOM_CONFLICT ex_slot1 ex_slot3, CAPACITY_EXCEEDED ex_slot1 ex_course1 ex_lab],
      fitness = 0\<rparr>
     \<lparr>students = [], teachers = [], courses = [], rooms = [ex_lab, ex_room1, ex_room2],
      existingTimetables = []\<rparr> =
   [ROOM_CHANGE ex_slot1 ex_room1,
    TIME_CHANGE ex_slot1
      [\<lparr>alt_dayOfWeek = 1, alt_startTime = ''10:45'', alt_endTime = ''12:15''\<rparr>,
       \<lparr>alt_dayOfWeek = 1, alt_startTime = ''13:00'', alt_endTime = ''14:30''\<rparr>,
       \<lparr>alt_dayOfWeek = 1, alt_startTime = ''14:45'', alt_endTime = ''16:15''\<rparr>]]"
proof -
  have r: "first_classroom [ex_lab, ex_room1, ex_room2] 25 = Some ex_room1"
    by (simp add: first_classroom_def ex_lab_def ex_room1_def ex_room2_def)
  have m: "maxStudents ex_course1 = Given 25" by (simp add: ex_course1_def)
  note a = ex_alternatives[unfolded findAlternativeTimes_catalog]
  show ?thesis
    using generateSuggestions_spec[of
      "\<lparr>slots = [ex_slot1, ex_slot3],
      conflicts = [ROOM_CONFLICT ex_slot1 ex_slot3, CAPACITY_EXCEEDED ex_slot1 ex_course1 ex_lab],
      fitness = 0\<rparr>"
      "\<lparr>students = [], teachers = [], courses = [], rooms = [ex_lab, ex_room1, ex_room2],
      existingTimetables = []\<rparr>"]
    by (simp add: r m a)
qed


lemma rnd_zero_draw: "Math_random rnd_zero pos = 0"
  by (simp add: Math_random_def rnd_zero_def)



text \<open>A crossover of a parent of 5 slots with a parent of 3.\<close>

theorem crossover_length_max_witness:
  "length [ex_slot1, ex_slot2, ex_slot3, ex_slot1, ex_slot2] = 5 \<and>
   length [ex_slot3, ex_slot3, ex_slot3] = 3 \<and>
   length (slots (fst (crossover rnd_zero 0
     \<lparr>slots = [ex_slot1, ex_slot2, ex_slot3, ex_slot1, ex_slot2], conflicts = [], fitness = 0\<rparr>
     \<lparr>slots = [ex_slot3, ex_slot3, ex_slot3], conflicts = [], fitness = 0\<rparr>))) = 5 \<and>
   slots (fst (crossover rnd_zero 0
     \<lparr>slots = [ex_slot1, ex_slot2, ex_slot3, ex_slot1, ex_slot2], conflicts = [], fitness = 0\<rparr>
     \<lparr>slots = [ex_slot3, ex_slot3, ex_slot3], conflicts = [], fitness = 0\<rparr>)) ! 4 = ex_slot2"
  using crossover_length_max[of
     "\<lparr>slots = [ex_slot1, ex_slot2, ex_slot3, ex_slot1, ex_slot2], conflicts = [], fitness = 0\<rparr>"
     "\<lparr>slots = [ex_slot3, ex_slot3, ex_slot3], conflicts = [], fitness = 0\<rparr>" rnd_zero 0]
  by (simp add: Let_def)

subsection \<open>The search driver\<close>

declare breed.simps [simp del] for_generations.simps [simp del]

lemma eliteCount_10: "eliteCount = 10"
  by (simp add: eliteCount_def populationSize_def fl_mul_def double_vals)

lemma evaluate_eq:
  "evaluate snap ind =
     ind\<lparr>conflicts := recorded (slots ind) snap,
         fitness := max 0 (subtract_all 1 (recorded (slots ind) snap))\<rparr>"
  by (simp add: evaluate_def calculateFitness_recorded)

lemma slots_evaluate: "slots (evaluate snap ind) = slots ind"
  by (simp add: evaluate_eq)

lemma evaluate_idem: "evaluate snap (evaluate snap ind) = evaluate snap ind"
  by (simp add: evaluate_eq)

lemma evaluate_genes: "one_gene_per_course snap (evaluate snap ind) = one_gene_per_course snap ind"
  by (simp add: one_gene_per_course_def slots_evaluate)

lemma set_sort_by_fitness: "set (sort_by_fitness xs) = set xs"
  by (simp add: sort_by_fitness_def)

lemma length_sort_by_fitness: "length (sort_by_fitness xs) = length xs"
  by (simp add: sort_by_fitness_def)

lemma sort_by_fitness_Nil: "sort_by_fitness xs = [] \<longleftrightarrow> xs = []"
  by (metis length_sort_by_fitness length_0_conv)

lemma hd_sort_by_fitness:
  assumes "x \<in> set xs"
  shows "fitness x \<le> fitness (hd (sort_by_fitness xs))"
proof -
  have s: "sorted (map (\<lambda>a. - fitness a) (sort_by_fitness xs))"
    by (simp add: sort_by_fitness_def)
  have x: "x \<in> set (sort_by_fitness xs)" using assms by (simp add: set_sort_by_fitness)
  then obtain y ys where c: "sort_by_fitness xs = y # ys" by (cases "sort_by_fitness xs") auto
  show ?thesis using s x unfolding c by auto
qed

lemma tournamentSelection_member:
  "tournamentSelection rnd pos population = Inr (p, pos') \<Longrightarrow> p \<in> set population \<and> pos' = pos + 3"
  by (auto simp: tournamentSelection_def js_nth_def Let_def split: if_splits)

lemma tournamentSelection_ok:
  assumes "population \<noteq> []"
  shows "\<exists>p. tournamentSelection rnd pos population = Inr (p, pos + 3)"
proof -
  have "random_index rnd (pos + k) (length population) < length population" for k
    by (rule random_index_less) (use assms in simp)
  then show ?thesis by (simp add: tournamentSelection_def js_nth_def Let_def)
qed

lemma find_known:
  assumes "k \<in> set (known_ids snap)"
  shows "\<exists>c. find (\<lambda>c. course_id c = k) (courses snap) = Some c"
proof -
  from assms obtain c where "c \<in> set (courses snap)" "course_id c = k"
    by (auto simp: known_ids_def)
  then have "find (\<lambda>c. course_id c = k) (courses snap) \<noteq> None"
    by (auto simp: find_None_iff)
  then show ?thesis by auto
qed

lemma mutate_step_ok:
  assumes "i < length (fst st)" and "map courseId (fst st) = known_ids snap" and "rooms snap \<noteq> []"
  shows "\<exists>st'. mutate_step rnd snap i st = Inr st'"
proof -
  have "courseId (fst st ! i) = known_ids snap ! i"
    using assms(1,2) by (metis nth_map)
  moreover have "i < length (known_ids snap)" using assms(1,2) by (metis length_map)
  ultimately have "courseId (fst st ! i) \<in> set (known_ids snap)" by (metis nth_mem)
  from find_known[OF this] obtain c where
    c: "find (\<lambda>c. course_id c = courseId (fst st ! i)) (courses snap) = Some c" by auto
  show ?thesis
  proof (cases "find (\<lambda>t. teacher_id t = course_teacherId c) (teachers snap)")
    case None
    then show ?thesis by (simp add: mutate_step_def c)
  next
    case (Some t)
    from generateRandomSlot_ok[OF assms(3)] obtain sl where
      "generateRandomSlot rnd (snd st + 1) c t (rooms snap) = Inr (sl, snd st + 1 + 3)" by blast
    then show ?thesis by (simp add: mutate_step_def c Some)
  qed
qed

lemma mutate_loop_ok:
  assumes "rooms snap \<noteq> []"
  shows "\<forall>i\<in>set is. i < length (fst st) \<Longrightarrow> map courseId (fst st) = known_ids snap \<Longrightarrow>
     \<exists>st'. mutate_loop rnd snap is st = Inr st'"
proof (induction "is" arbitrary: st)
  case Nil
  then show ?case by simp
next
  case (Cons i "is")
  have "i < length (fst st)" using Cons.prems(1) by simp
  from mutate_step_ok[OF this Cons.prems(2) assms]
  obtain st1 where s: "mutate_step rnd snap i st = Inr st1" by blast
  have m: "map courseId (fst st1) = known_ids snap"
    using mutate_step_courseIds[OF s] Cons.prems(2) by simp
  then have "length (fst st1) = length (fst st)" using Cons.prems(2) by (metis length_map)
  then have "\<forall>i\<in>set is. i < length (fst st1)" using Cons.prems(1) by simp
  from Cons.IH[OF this m] show ?case by (simp add: s)
qed

lemma mutate_ok:
  assumes "one_gene_per_course snap ind" and "rooms snap \<noteq> []"
  shows "\<exists>ind' pos'. mutate rnd pos ind snap = Inr (ind', pos')"
proof -
  have "map courseId (fst (slots ind, pos)) = known_ids snap"
    using assms(1) by (simp add: one_gene_per_course_def known_ids_def)
  moreover have "\<forall>i\<in>set [0..<length (slots ind)]. i < length (fst (slots ind, pos))" by simp
  ultimately obtain st' where
    "mutate_loop rnd snap [0..<length (slots ind)] (slots ind, pos) = Inr st'"
    using mutate_loop_ok[OF assms(2)] by blast
  then show ?thesis by (cases st') (simp add: mutate_def)
qed

lemma mutate_genes:
  "mutate rnd pos ind snap = Inr (ind', pos') \<Longrightarrow>
     one_gene_per_course snap ind' = one_gene_per_course snap ind"
  by (simp add: one_gene_per_course_def mutate_courseIds)

lemma breed_result:
  assumes "breed rnd snap population st = Inr st'"
  shows "take (length (fst st)) (fst st') = fst st \<and>
         (length (fst st) \<le> populationSize \<longrightarrow> length (fst st') = populationSize) \<and>
         ((\<forall>p\<in>set population. one_gene_per_course snap p) \<and>
          (\<forall>p\<in>set (fst st). one_gene_per_course snap p) \<longrightarrow>
          (\<forall>p\<in>set (fst st'). one_gene_per_course snap p))"
  using assms
proof (induction "populationSize - length (fst st)" arbitrary: st)
  case 0
  then have "breed rnd snap population st = Inr st" by (subst breed.simps) simp
  with 0 show ?case by auto
next
  case (Suc k)
  then have lt: "length (fst st) < populationSize" by simp
  from Suc.prems have u:
    "(case tournamentSelection rnd (snd st) population of
        Inl e \<Rightarrow> Inl e
      | Inr (parent1, pos1) \<Rightarrow>
          (case tournamentSelection rnd pos1 population of
             Inl e \<Rightarrow> Inl e
           | Inr (parent2, pos2) \<Rightarrow>
               (case mutate rnd (snd (crossover rnd pos2 parent1 parent2))
                       (fst (crossover rnd pos2 parent1 parent2)) snap of
                  Inl e \<Rightarrow> Inl e
                | Inr (mutatedOffspring, pos4) \<Rightarrow>
                    breed rnd snap population (fst st @ [mutatedOffspring], pos4)))) = Inr st'"
    by (subst (asm) breed.simps) (simp only: lt if_True)
  obtain parent1 pos1 where
    t1: "tournamentSelection rnd (snd st) population = Inr (parent1, pos1)"
    using u by (cases "tournamentSelection rnd (snd st) population") auto
  have u2:
    "(case tournamentSelection rnd pos1 population of
             Inl e \<Rightarrow> Inl e
           | Inr (parent2, pos2) \<Rightarrow>
               (case mutate rnd (snd (crossover rnd pos2 parent1 parent2))
                       (fst (crossover rnd pos2 parent1 parent2)) snap of
                  Inl e \<Rightarrow> Inl e
                | Inr (mutatedOffspring, pos4) \<Rightarrow>
                    breed rnd snap population (fst st @ [mutatedOffspring], pos4))) = Inr st'"
    using u by (simp add: t1)
  obtain parent2 pos2 where
    t2: "tournamentSelection rnd pos1 population = Inr (parent2, pos2)"
    using u2 by (cases "tournamentSelection rnd pos1 population") auto
  have u3:
    "(case mutate rnd (snd (crossover rnd pos2 parent1 parent2))
                       (fst (crossover rnd pos2 parent1 parent2)) snap of
                  Inl e \<Rightarrow> Inl e
                | Inr (mutatedOffspring, pos4) \<Rightarrow>
                    breed rnd snap population (fst st @ [mutatedOffspring], pos4)) = Inr st'"
    using u2 by (simp add: t2)
  obtain m pos4 where
    mu: "mutate rnd (snd (crossover rnd pos2 parent1 parent2))
           (fst (crossover rnd pos2 parent1 parent2)) snap = Inr (m, pos4)"
    using u3 by (cases "mutate rnd (snd (crossover rnd pos2 parent1 parent2))
           (fst (crossover rnd pos2 parent1 parent2)) snap") auto
  have rec: "breed rnd snap population (fst st @ [m], pos4) = Inr st'"
    using u3 by (simp add: mu)
  have k: "k = populationSize - length (fst (fst st @ [m], pos4))" using Suc.hyps(2) by simp
  note IH = Suc.hyps(1)[OF k rec]
  note i1 = IH[THEN conjunct1, unfolded fst_conv]
  note i2 = IH[THEN conjunct2, THEN conjunct1, unfolded fst_conv]
  note i3 = IH[THEN conjunct2, THEN conjunct2, unfolded fst_conv]
  have "take (length (fst st)) (fst st') =
        take (length (fst st)) (take (length (fst st @ [m])) (fst st'))"
    by (simp add: min_def)
  also have "\<dots> = take (length (fst st)) (fst st @ [m])" by (simp only: i1)
  also have "\<dots> = fst st" by simp
  finally have a: "take (length (fst st)) (fst st') = fst st" .
  have "length (fst st @ [m]) \<le> populationSize" using lt by simp
  with i2 have b: "length (fst st') = populationSize" by blast
  have c: "\<forall>p\<in>set (fst st'). one_gene_per_course snap p"
    if g: "\<forall>p\<in>set population. one_gene_per_course snap p"
      "\<forall>p\<in>set (fst st). one_gene_per_course snap p"
  proof -
    have "one_gene_per_course snap parent1" "one_gene_per_course snap parent2"
      using g(1) tournamentSelection_member[OF t1] tournamentSelection_member[OF t2] by auto
    then have "one_gene_per_course snap (fst (crossover rnd pos2 parent1 parent2))"
      by (rule crossover_genes)
    then have "one_gene_per_course snap m" using mutate_genes[OF mu] by simp
    then have "\<forall>p\<in>set (fst st @ [m]). one_gene_per_course snap p" using g(2) by simp
    with i3 g(1) show ?thesis by blast
  qed
  show ?case using a b c by blast
qed

lemma breed_ok:
  assumes "population \<noteq> []" and "\<forall>p\<in>set population. one_gene_per_course snap p"
    and "rooms snap \<noteq> []"
  shows "\<exists>st'. breed rnd snap population st = Inr st'"
proof (induction "populationSize - length (fst st)" arbitrary: st)
  case 0
  then have "breed rnd snap population st = Inr st" by (subst breed.simps) simp
  then show ?case by blast
next
  case (Suc k)
  then have lt: "length (fst st) < populationSize" by simp
  obtain parent1 where t1: "tournamentSelection rnd (snd st) population = Inr (parent1, snd st + 3)"
    using tournamentSelection_ok[OF assms(1)] by blast
  obtain parent2 pos2 where t2: "tournamentSelection rnd (snd st + 3) population = Inr (parent2, pos2)"
    using tournamentSelection_ok[OF assms(1)] by blast
  have "one_gene_per_course snap parent1" "one_gene_per_course snap parent2"
    using assms(2) tournamentSelection_member[OF t1] tournamentSelection_member[OF t2] by auto
  then have "one_gene_per_course snap (fst (crossover rnd pos2 parent1 parent2))"
    by (rule crossover_genes)
  from mutate_ok[OF this assms(3)] obtain m pos4 where
    mu: "mutate rnd (snd (crossover rnd pos2 parent1 parent2))
           (fst (crossover rnd pos2 parent1 parent2)) snap = Inr (m, pos4)"
    by blast
  have k: "k = populationSize - length (fst (fst st @ [m], pos4))" using Suc.hyps(2) by simp
  from Suc.hyps(1)[OF k] obtain st' where
    "breed rnd snap population (fst st @ [m], pos4) = Inr st'" by blast
  then have "breed rnd snap population st = Inr st'"
    by (subst breed.simps) (simp add: lt t1 t2 mu)
  then show ?case by blast
qed

lemma random_slots_ok:
  assumes "rooms snap \<noteq> []"
  shows "\<exists>st'. random_slots rnd snap cs st = Inr st'"
proof (induction cs arbitrary: st)
  case Nil
  then show ?case by simp
next
  case (Cons c cs)
  show ?case
  proof (cases "find (\<lambda>t. teacher_id t = course_teacherId c) (teachers snap)")
    case None
    then show ?thesis using Cons.IH by simp
  next
    case (Some t)
    from generateRandomSlot_ok[OF assms] obtain sl where
      "generateRandomSlot rnd (snd st) c t (rooms snap) = Inr (sl, snd st + 3)" by blast
    then show ?thesis using Cons.IH by (simp add: Some)
  qed
qed

lemma initializePopulation_ok:
  assumes "rooms snap \<noteq> []"
  shows "\<exists>st. initializePopulation rnd pos n snap = Inr st"
proof (induction n arbitrary: pos)
  case 0
  then show ?case by simp
next
  case (Suc n)
  obtain st1 where s1: "random_slots rnd snap (courses snap) ([], pos) = Inr st1"
    using random_slots_ok[OF assms] by blast
  obtain st2 where s2: "initializePopulation rnd (snd st1) n snap = Inr st2"
    using Suc.IH by blast
  show ?case by (cases st1; cases st2) (use s1 s2 in simp)
qed

lemma evaluated_Nil: "evaluated snap st = [] \<longleftrightarrow> fst st = []"
  by (simp add: evaluated_def sort_by_fitness_Nil)

lemma evaluated_genes:
  "(\<forall>p\<in>set (evaluated snap st). one_gene_per_course snap p) \<longleftrightarrow>
   (\<forall>p\<in>set (fst st). one_gene_per_course snap p)"
  by (simp add: evaluated_def set_sort_by_fitness evaluate_genes)

lemma evaluated_best:
  "x \<in> set (evaluated snap st) \<Longrightarrow> fitness x \<le> fitness (hd (evaluated snap st))"
  unfolding evaluated_def set_sort_by_fitness by (rule hd_sort_by_fitness)

lemma body_Break:
  assumes "generation_body rnd snap thr st = Inr (Break st')"
  shows "st' = (evaluated snap st, snd st) \<and> evaluated snap st \<noteq> [] \<and>
         fitness (hd (evaluated snap st)) \<ge> thr"
  using assms
  by (auto simp: generation_body_def evaluated_def Let_def split: list.splits if_splits sum.splits)

lemma body_Next:
  assumes "generation_body rnd snap thr st = Inr (Next st')"
  shows "evaluated snap st \<noteq> [] \<and> fitness (hd (evaluated snap st)) < thr \<and>
         breed rnd snap (evaluated snap st) (take eliteCount (evaluated snap st), snd st) = Inr st'"
  using assms
  by (auto simp: generation_body_def evaluated_def Let_def split: list.splits if_splits sum.splits)

lemma body_cases:
  assumes "length (fst st) = populationSize"
    and "\<forall>p\<in>set (fst st). one_gene_per_course snap p" and "rooms snap \<noteq> []"
  shows "(\<exists>st'. generation_body rnd snap thr st = Inr (Break st')) \<or>
         (\<exists>st'. generation_body rnd snap thr st = Inr (Next st'))"
proof -
  have ne: "evaluated snap st \<noteq> []"
    using assms(1) by (auto simp: evaluated_Nil populationSize_def)
  then obtain best rest where c: "evaluated snap st = best # rest"
    by (cases "evaluated snap st") auto
  have g: "\<forall>p\<in>set (evaluated snap st). one_gene_per_course snap p"
    using assms(2) by (simp add: evaluated_genes)
  from breed_ok[OF ne g assms(3)] obtain st' where
    "breed rnd snap (evaluated snap st) (take eliteCount (evaluated snap st), snd st) = Inr st'"
    by blast
  then show ?thesis
    using c by (simp add: generation_body_def Let_def evaluated_def[symmetric])
qed

lemma body_Next_inv:
  assumes "generation_body rnd snap thr st = Inr (Next st')"
    and "length (fst st) = populationSize"
    and "\<forall>p\<in>set (fst st). one_gene_per_course snap p"
  shows "length (fst st') = populationSize \<and> (\<forall>p\<in>set (fst st'). one_gene_per_course snap p) \<and>
         take eliteCount (fst st') = take eliteCount (evaluated snap st)"
proof -
  let ?E = "evaluated snap st"
  from body_Next[OF assms(1)] have
    b: "breed rnd snap ?E (take eliteCount ?E, snd st) = Inr st'" by simp
  have len: "length ?E = populationSize"
    using assms(2) by (simp add: evaluated_def length_sort_by_fitness)
  have l: "length (take eliteCount ?E) = eliteCount"
    using len by (simp add: eliteCount_10 populationSize_def)
  have g: "\<forall>p\<in>set ?E. one_gene_per_course snap p" using assms(3) by (simp add: evaluated_genes)
  then have g': "\<forall>p\<in>set (take eliteCount ?E). one_gene_per_course snap p"
    by (meson in_set_takeD)
  from breed_result[OF b] l g g' show ?thesis
    by (simp add: eliteCount_10 populationSize_def)
qed

lemma generation_state_Suc:
  assumes "generation_state rnd thr snap (Suc g) = Some st'"
  shows "\<exists>st. generation_state rnd thr snap g = Some st \<and>
              generation_body rnd snap thr st = Inr (Next st')"
  using assms by (auto split: option.splits sum.splits flow.splits)

lemma generation_state_inv:
  "generation_state rnd thr snap g = Some st \<Longrightarrow>
     length (fst st) = populationSize \<and> (\<forall>p\<in>set (fst st). one_gene_per_course snap p)"
proof (induction g arbitrary: st)
  case 0
  then have "initializePopulation rnd 0 populationSize snap = Inr st"
    by (auto split: sum.splits)
  then show ?case using initializePopulation_genes[of rnd 0 populationSize snap "fst st" "snd st"]
    by simp
next
  case (Suc g)
  from generation_state_Suc[OF Suc.prems] obtain st0 where
    s: "generation_state rnd thr snap g = Some st0" and
    b: "generation_body rnd snap thr st0 = Inr (Next st)" by blast
  from Suc.IH[OF s] body_Next_inv[OF b] show ?case by blast
qed

lemma generation_improves:
  assumes "generation_state rnd thr snap g = Some st"
    and "generation_state rnd thr snap (Suc g) = Some st'"
  shows "evaluated snap st \<noteq> [] \<and> evaluated snap st' \<noteq> [] \<and>
         take eliteCount (fst st') = take eliteCount (evaluated snap st) \<and>
         fitness (hd (evaluated snap st)) \<le> fitness (hd (evaluated snap st'))"
proof -
  let ?E = "evaluated snap st" and ?E' = "evaluated snap st'"
  from generation_state_Suc[OF assms(2)] assms(1)
  have b: "generation_body rnd snap thr st = Inr (Next st')" by simp
  note inv = generation_state_inv[OF assms(1)]
  from body_Next_inv[OF b] inv have
    l': "length (fst st') = populationSize" and
    t: "take eliteCount (fst st') = take eliteCount ?E" by simp_all
  have ne: "?E \<noteq> []" using body_Next[OF b] by simp
  have ne': "?E' \<noteq> []" using l' by (auto simp: evaluated_Nil populationSize_def)
  have "hd ?E \<in> set (take eliteCount ?E)"
    using ne by (cases ?E) (simp_all add: eliteCount_10)
  then have m: "hd ?E \<in> set (fst st')" unfolding t[symmetric] by (rule in_set_takeD)
  have "hd ?E \<in> set ?E" using ne by simp
  then obtain y where "hd ?E = evaluate snap y"
    by (auto simp: evaluated_def set_sort_by_fitness)
  then have "evaluate snap (hd ?E) = hd ?E" by (simp add: evaluate_idem)
  then have "hd ?E \<in> set ?E'"
    using m by (force simp: evaluated_def set_sort_by_fitness)
  from evaluated_best[OF this] ne ne' t show ?thesis by simp
qed

subsection \<open>Runs of the generation loop\<close>

lemma generation_state_0_ok:
  assumes "rooms snap \<noteq> []"
  shows "\<exists>st. generation_state rnd thr snap 0 = Some st"
  using initializePopulation_ok[OF assms, of rnd 0 populationSize] by auto

lemma generation_chain:
  "generation_state rnd thr snap k = Some st_k \<Longrightarrow> j \<le> k \<Longrightarrow>
     \<exists>st_j. generation_state rnd thr snap j = Some st_j \<and>
            fitness (hd (evaluated snap st_j)) \<le> fitness (hd (evaluated snap st_k))"
proof (induction k arbitrary: st_k)
  case 0
  then show ?case by simp
next
  case (Suc k)
  show ?case
  proof (cases "j = Suc k")
    case True
    then show ?thesis using Suc.prems(1) by simp
  next
    case False
    then have le: "j \<le> k" using Suc.prems(2) by simp
    from generation_state_Suc[OF Suc.prems(1)] obtain st where
      s: "generation_state rnd thr snap k = Some st" by blast
    from Suc.IH[OF s le] obtain st_j where
      j: "generation_state rnd thr snap j = Some st_j" and
      f: "fitness (hd (evaluated snap st_j)) \<le> fitness (hd (evaluated snap st))" by blast
    from generation_improves[OF s Suc.prems(1)] have
      "fitness (hd (evaluated snap st)) \<le> fitness (hd (evaluated snap st_k))" by simp
    with j f show ?thesis by auto
  qed
qed

lemma for_generations_outcome:
  assumes "rooms snap \<noteq> []"
  shows "generation_state rnd thr snap g = Some st \<Longrightarrow> g < generations \<Longrightarrow>
     \<exists>k st_k st'. g \<le> k \<and> k < generations \<and> generation_state rnd thr snap k = Some st_k \<and>
        for_generations rnd snap thr g st = Inr st' \<and> fst st' \<noteq> [] \<and>
        hd (fst st') = hd (evaluated snap st_k) \<and>
        (thr \<le> fitness (hd (evaluated snap st_k)) \<or> Suc k = generations) \<and>
        (\<forall>j. g \<le> j \<and> j < k \<longrightarrow>
           (\<exists>st_j. generation_state rnd thr snap j = Some st_j \<and>
                   fitness (hd (evaluated snap st_j)) < thr))"
proof (induction "generations - g" arbitrary: g st)
  case 0
  then show ?case by simp
next
  case (Suc n)
  note gs = Suc.prems(1) and lt = Suc.prems(2)
  note inv = generation_state_inv[OF gs]
  from body_cases[OF inv[THEN conjunct1] inv[THEN conjunct2] assms, of rnd thr]
  consider st' where "generation_body rnd snap thr st = Inr (Break st')"
    | st' where "generation_body rnd snap thr st = Inr (Next st')" by blast
  then show ?case
  proof cases
    case 1
    from body_Break[OF 1] have
      e: "st' = (evaluated snap st, snd st)" "evaluated snap st \<noteq> []"
         "thr \<le> fitness (hd (evaluated snap st))" by simp_all
    have "for_generations rnd snap thr g st = Inr st'"
      by (subst for_generations.simps) (simp add: lt 1)
    then show ?thesis using gs lt e by (rule_tac x=g in exI, rule_tac x=st in exI, rule_tac x="st'" in exI) auto
  next
    case 2
    have gs': "generation_state rnd thr snap (Suc g) = Some st'" by (simp add: gs 2)
    from body_Next[OF 2] have low: "fitness (hd (evaluated snap st)) < thr" by simp
    have unfold: "for_generations rnd snap thr g st = for_generations rnd snap thr (g + 1) st'"
      by (subst for_generations.simps) (simp add: lt 2)
    show ?thesis
    proof (cases "Suc g < generations")
      case True
      have n: "n = generations - Suc g" using Suc.hyps(2) by simp
      from Suc.hyps(1)[OF n gs' True] obtain k st_k st'' where
        k: "Suc g \<le> k" "k < generations" "generation_state rnd thr snap k = Some st_k"
           "for_generations rnd snap thr (Suc g) st' = Inr st''" "fst st'' \<noteq> []"
           "hd (fst st'') = hd (evaluated snap st_k)"
           "thr \<le> fitness (hd (evaluated snap st_k)) \<or> Suc k = generations" and
        below: "\<forall>j. Suc g \<le> j \<and> j < k \<longrightarrow>
           (\<exists>st_j. generation_state rnd thr snap j = Some st_j \<and>
                   fitness (hd (evaluated snap st_j)) < thr)"
        by blast
      have below': "\<forall>j. g \<le> j \<and> j < k \<longrightarrow>
           (\<exists>st_j. generation_state rnd thr snap j = Some st_j \<and>
                   fitness (hd (evaluated snap st_j)) < thr)"
      proof (intro allI impI)
        fix j assume j: "g \<le> j \<and> j < k"
        show "\<exists>st_j. generation_state rnd thr snap j = Some st_j \<and>
                   fitness (hd (evaluated snap st_j)) < thr"
        proof (cases "j = g")
          case True
          then show ?thesis using gs low by simp
        next
          case False
          then have "Suc g \<le> j \<and> j < k" using j by simp
          then show ?thesis using below by blast
        qed
      qed
      have "g \<le> k" using k(1) by simp
      moreover have "for_generations rnd snap thr g st = Inr st''" using unfold k(4) by simp
      ultimately show ?thesis using k below' by blast
    next
      case False
      then have last: "Suc g = generations" using lt by simp
      have r: "for_generations rnd snap thr g st = Inr st'"
        unfolding unfold by (subst for_generations.simps) (simp add: last[symmetric])
      from generation_improves[OF gs gs'] have
        ne: "evaluated snap st \<noteq> []" and
        t: "take eliteCount (fst st') = take eliteCount (evaluated snap st)" by simp_all
      have "hd (take eliteCount (fst st')) = hd (take eliteCount (evaluated snap st))"
        by (simp only: t)
      then have h: "hd (fst st') = hd (evaluated snap st)" by (simp add: eliteCount_10)
      have "take eliteCount (fst st') \<noteq> []" unfolding t using ne by (simp add: eliteCount_10)
      then have ne': "fst st' \<noteq> []" by auto
      show ?thesis
        using gs lt r ne' h last by (rule_tac x=g in exI, rule_tac x=st in exI, rule_tac x="st'" in exI) auto
    qed
  qed
qed

lemma fitness_evaluate_le_1: "fitness (evaluate snap ind) \<le> 1"
  using calculateFitness_le_1[of ind snap] by (simp add: evaluate_def Let_def)

lemma evaluated_member: "x \<in> set (evaluated snap st) \<Longrightarrow> \<exists>y. x = evaluate snap y"
  by (auto simp: evaluated_def set_sort_by_fitness)

lemma Max_evaluated:
  assumes "evaluated snap st \<noteq> []"
  shows "Max (fitness ` set (evaluated snap st)) = fitness (hd (evaluated snap st))"
proof (rule Max_eqI)
  show "finite (fitness ` set (evaluated snap st))" by simp
  show "\<And>y. y \<in> fitness ` set (evaluated snap st) \<Longrightarrow> y \<le> fitness (hd (evaluated snap st))"
    by (auto dest: evaluated_best)
  show "fitness (hd (evaluated snap st)) \<in> fitness ` set (evaluated snap st)"
    using assms by simp
qed

lemma generation_state_never_converged:
  assumes "rooms snap \<noteq> []" and "1 < thr"
  shows "\<exists>st. generation_state rnd thr snap g = Some st"
proof (induction g)
  case 0
  show ?case by (rule generation_state_0_ok[OF assms(1)])
next
  case (Suc g)
  then obtain st where s: "generation_state rnd thr snap g = Some st" by blast
  note inv = generation_state_inv[OF s]
  from body_cases[OF inv[THEN conjunct1] inv[THEN conjunct2] assms(1), of rnd thr]
  consider st' where "generation_body rnd snap thr st = Inr (Break st')"
    | st' where "generation_body rnd snap thr st = Inr (Next st')" by blast
  then show ?case
  proof cases
    case 1
    from body_Break[OF 1] have ne: "evaluated snap st \<noteq> []"
      and t: "thr \<le> fitness (hd (evaluated snap st))" by simp_all
    from ne have "hd (evaluated snap st) \<in> set (evaluated snap st)" by simp
    from evaluated_member[OF this] obtain y where "hd (evaluated snap st) = evaluate snap y" ..
    then have "fitness (hd (evaluated snap st)) \<le> 1" by (simp add: fitness_evaluate_le_1)
    with t assms(2) show ?thesis by simp
  next
    case 2
    then show ?thesis by (simp add: s)
  qed
qed

text \<open>
  C10. When the run enters generation \<open>g\<close> and generation \<open>g + 1\<close>, the best
  fitness of the evaluated population does not decrease from the one to the
  other. The first \<open>eliteCount = 10\<close> individuals of the evaluated, sorted
  population open the next population unchanged, before any offspring, and
  evaluating an already evaluated individual against the same snapshot gives
  it back, fitness included.
\<close>

theorem elitism_monotone:
  "generation_state rnd thr snap g = Some st \<and>
   generation_state rnd thr snap (Suc g) = Some st' \<longrightarrow>
     evaluated snap st \<noteq> [] \<and> evaluated snap st' \<noteq> [] \<and>
     eliteCount = 10 \<and>
     take eliteCount (fst st') = take eliteCount (evaluated snap st) \<and>
     (\<forall>ind. evaluate snap (evaluate snap ind) = evaluate snap ind) \<and>
     (\<forall>x\<in>set (evaluated snap st). evaluate snap x = x) \<and>
     Max (fitness ` set (evaluated snap st)) = fitness (hd (evaluated snap st)) \<and>
     Max (fitness ` set (evaluated snap st')) = fitness (hd (evaluated snap st')) \<and>
     Max (fitness ` set (evaluated snap st)) \<le> Max (fitness ` set (evaluated snap st'))"
proof
  assume a: "generation_state rnd thr snap g = Some st \<and>
   generation_state rnd thr snap (Suc g) = Some st'"
  from generation_improves[OF a[THEN conjunct1] a[THEN conjunct2]] have
    ne: "evaluated snap st \<noteq> []" and ne': "evaluated snap st' \<noteq> []" and
    t: "take eliteCount (fst st') = take eliteCount (evaluated snap st)" and
    f: "fitness (hd (evaluated snap st)) \<le> fitness (hd (evaluated snap st'))" by simp_all
  have i: "\<forall>x\<in>set (evaluated snap st). evaluate snap x = x"
    by (auto dest!: evaluated_member simp: evaluate_idem)
  show "evaluated snap st \<noteq> [] \<and> evaluated snap st' \<noteq> [] \<and>
     eliteCount = 10 \<and>
     take eliteCount (fst st') = take eliteCount (evaluated snap st) \<and>
     (\<forall>ind. evaluate snap (evaluate snap ind) = evaluate snap ind) \<and>
     (\<forall>x\<in>set (evaluated snap st). evaluate snap x = x) \<and>
     Max (fitness ` set (evaluated snap st)) = fitness (hd (evaluated snap st)) \<and>
     Max (fitness ` set (evaluated snap st')) = fitness (hd (evaluated snap st')) \<and>
     Max (fitness ` set (evaluated snap st)) \<le> Max (fitness ` set (evaluated snap st'))"
    unfolding Max_evaluated[OF ne] Max_evaluated[OF ne']
    using ne ne' t f i by (simp add: eliteCount_10 evaluate_idem)
qed

text \<open>A run with a threshold out of reach enters generations 0 and 1.\<close>

theorem elitism_monotone_witness:
  "\<exists>st st'. generation_state rnd_zero 2 ex_small 0 = Some st \<and>
      generation_state rnd_zero 2 ex_small (Suc 0) = Some st' \<and>
      take eliteCount (fst st') = take eliteCount (evaluated ex_small st) \<and>
      Max (fitness ` set (evaluated ex_small st)) \<le> Max (fitness ` set (evaluated ex_small st'))"
proof -
  have r: "rooms ex_small \<noteq> []" by (simp add: ex_small_def)
  obtain st where s: "generation_state rnd_zero 2 ex_small 0 = Some st"
    using generation_state_never_converged[OF r, of 2 rnd_zero 0] by auto
  obtain st' where s': "generation_state rnd_zero 2 ex_small (Suc 0) = Some st'"
    using generation_state_never_converged[OF r, of 2 rnd_zero "Suc 0"] by auto
  from elitism_monotone[of rnd_zero 2 ex_small 0 st st'] s s' show ?thesis by blast
qed

lemma evaluated_at_eq:
  "g < generations \<Longrightarrow>
     evaluated_at rnd thr snap g = map_option (evaluated snap) (generation_state rnd thr snap g)"
  by (simp add: evaluated_at_def)

lemma geneticAlgorithm_outcome:
  assumes "rooms snap \<noteq> []"
  shows "\<exists>k st_k. k < generations \<and> generation_state rnd thr snap k = Some st_k \<and>
      evaluated snap st_k \<noteq> [] \<and>
      geneticAlgorithm rnd thr snap semester academicYear =
        Inr (formatTimetable (hd (evaluated snap st_k)) snap semester academicYear) \<and>
      (thr \<le> fitness (hd (evaluated snap st_k)) \<or> Suc k = generations) \<and>
      (\<forall>j. j < k \<longrightarrow>
         (\<exists>st_j. generation_state rnd thr snap j = Some st_j \<and>
                 fitness (hd (evaluated snap st_j)) < thr))"
proof -
  obtain st0 where s0: "generation_state rnd thr snap 0 = Some st0"
    using generation_state_0_ok[OF assms] by blast
  then have i: "initializePopulation rnd 0 populationSize snap = Inr st0"
    by (auto split: sum.splits)
  have "0 < generations" by (simp add: generations_def)
  from for_generations_outcome[OF assms s0 this] obtain k st_k st' where
    k: "k < generations" "generation_state rnd thr snap k = Some st_k"
       "for_generations rnd snap thr 0 st0 = Inr st'" "fst st' \<noteq> []"
       "hd (fst st') = hd (evaluated snap st_k)"
       "thr \<le> fitness (hd (evaluated snap st_k)) \<or> Suc k = generations" and
    below: "\<forall>j. 0 \<le> j \<and> j < k \<longrightarrow>
           (\<exists>st_j. generation_state rnd thr snap j = Some st_j \<and>
                   fitness (hd (evaluated snap st_j)) < thr)"
    by blast
  obtain best rest where c: "fst st' = best # rest" using k(4) by (cases "fst st'") auto
  have "best = hd (evaluated snap st_k)" using k(5) c by simp
  then have g: "geneticAlgorithm rnd thr snap semester academicYear =
        Inr (formatTimetable (hd (evaluated snap st_k)) snap semester academicYear)"
    by (simp add: geneticAlgorithm_def i k(3) c)
  have "length (fst st_k) = populationSize" using generation_state_inv[OF k(2)] by simp
  then have ne: "evaluated snap st_k \<noteq> []" by (auto simp: evaluated_Nil populationSize_def)
  show ?thesis using k(1,2,6) ne g below by blast
qed

lemma formatTimetable_evaluated:
  "formatTimetable (evaluate snap y) snap semester academicYear =
     \<lparr>tt_semester = semester, tt_academicYear = academicYear,
      tt_slots =
        map (\<lambda>sl. \<lparr>fs_courseId = courseId sl, fs_teacherId = teacherId sl,
                    fs_roomId = roomId sl, fs_dayOfWeek = dayOfWeek sl,
                    fs_startTime = startTime sl, fs_endTime = endTime sl,
                    fs_course = find (\<lambda>c. course_id c = courseId sl) (courses snap),
                    fs_teacher = find (\<lambda>t. teacher_id t = teacherId sl) (teachers snap),
                    fs_room = find (\<lambda>r. room_id r = roomId sl) (rooms snap)\<rparr>)
          (slots (evaluate snap y)),
      tt_conflicts = recorded (slots (evaluate snap y)) snap,
      tt_suggestions =
        concat (map (room_suggestions (rooms snap)) (recorded (slots (evaluate snap y)) snap)) @
        concat (map (time_suggestions (slots (evaluate snap y))) (recorded (slots (evaluate snap y)) snap)),
      tt_fitness = fitness (evaluate snap y)\<rparr>"
proof -
  have c: "conflicts (evaluate snap y) = recorded (slots (evaluate snap y)) snap"
    by (simp add: evaluate_eq)
  have f: "format_slot snap =
      (\<lambda>sl. \<lparr>fs_courseId = courseId sl, fs_teacherId = teacherId sl,
                    fs_roomId = roomId sl, fs_dayOfWeek = dayOfWeek sl,
                    fs_startTime = startTime sl, fs_endTime = endTime sl,
                    fs_course = find (\<lambda>c. course_id c = courseId sl) (courses snap),
                    fs_teacher = find (\<lambda>t. teacher_id t = teacherId sl) (teachers snap),
                    fs_room = find (\<lambda>r. room_id r = roomId sl) (rooms snap)\<rparr>)"
    by (rule ext) (simp add: format_slot_def)
  show ?thesis
    unfolding formatTimetable_def generateSuggestions_eq c f by (rule refl)
qed

text \<open>
  C4. With a room list that is not empty (what validation leaves), the search
  returns a timetable and no error, after a generation \<open>g\<close> below 100. The
  timetable is made of the first individual of the population evaluated and
  sorted at \<open>g\<close>: its slots, each joined with its course, teacher and room,
  the conflicts the evaluator recorded for it, the suggestions for these
  conflicts, and its fitness, which is the fitness the evaluator computes from
  these conflicts. Either that individual reaches the threshold, or \<open>g\<close> is
  the last generation of the budget; no earlier generation reached the
  threshold; and no individual evaluated in any generation up to \<open>g\<close> has a
  higher fitness than the one returned.
\<close>

theorem geneticAlgorithm_returns_best:
  assumes "rooms snap \<noteq> []"
  shows "\<exists>g E. g < generations \<and> generations = 100 \<and>
      evaluated_at rnd thr snap g = Some E \<and> E \<noteq> [] \<and>
      geneticAlgorithm rnd thr snap semester academicYear =
        Inr \<lparr>tt_semester = semester, tt_academicYear = academicYear,
             tt_slots =
               map (\<lambda>sl. \<lparr>fs_courseId = courseId sl, fs_teacherId = teacherId sl,
                           fs_roomId = roomId sl, fs_dayOfWeek = dayOfWeek sl,
                           fs_startTime = startTime sl, fs_endTime = endTime sl,
                           fs_course = find (\<lambda>c. course_id c = courseId sl) (courses snap),
                           fs_teacher = find (\<lambda>t. teacher_id t = teacherId sl) (teachers snap),
                           fs_room = find (\<lambda>r. room_id r = roomId sl) (rooms snap)\<rparr>)
                 (slots (hd E)),
             tt_conflicts = recorded (slots (hd E)) snap,
             tt_suggestions =
               concat (map (room_suggestions (rooms snap)) (recorded (slots (hd E)) snap)) @
               concat (map (time_suggestions (slots (hd E))) (recorded (slots (hd E)) snap)),
             tt_fitness = fitness (hd E)\<rparr> \<and>
      conflicts (hd E) = recorded (slots (hd E)) snap \<and>
      fitness (hd E) = max 0 (foldl fl_sub 1 (map penalty (recorded (slots (hd E)) snap))) \<and>
      (thr \<le> fitness (hd E) \<or> Suc g = generations) \<and>
      (\<forall>j<g. \<exists>E'. evaluated_at rnd thr snap j = Some E' \<and> E' \<noteq> [] \<and> fitness (hd E') < thr) \<and>
      (\<forall>j\<le>g. \<forall>E'. evaluated_at rnd thr snap j = Some E' \<longrightarrow>
         (\<forall>x\<in>set E'. fitness x \<le> fitness (hd E)))"
proof -
  from geneticAlgorithm_outcome[OF assms, of rnd thr semester academicYear]
  obtain k st_k where
    k: "k < generations" "generation_state rnd thr snap k = Some st_k"
       "evaluated snap st_k \<noteq> []"
       "geneticAlgorithm rnd thr snap semester academicYear =
          Inr (formatTimetable (hd (evaluated snap st_k)) snap semester academicYear)"
       "thr \<le> fitness (hd (evaluated snap st_k)) \<or> Suc k = generations" and
    below: "\<forall>j. j < k \<longrightarrow>
         (\<exists>st_j. generation_state rnd thr snap j = Some st_j \<and>
                 fitness (hd (evaluated snap st_j)) < thr)"
    by blast
  let ?E = "evaluated snap st_k"
  have e: "evaluated_at rnd thr snap k = Some ?E" by (simp add: evaluated_at_eq k(1,2))
  have "hd ?E \<in> set ?E" using k(3) by simp
  from evaluated_member[OF this] obtain y where y: "hd ?E = evaluate snap y" ..
  have a: "geneticAlgorithm rnd thr snap semester academicYear =
        Inr \<lparr>tt_semester = semester, tt_academicYear = academicYear,
             tt_slots =
               map (\<lambda>sl. \<lparr>fs_courseId = courseId sl, fs_teacherId = teacherId sl,
                           fs_roomId = roomId sl, fs_dayOfWeek = dayOfWeek sl,
                           fs_startTime = startTime sl, fs_endTime = endTime sl,
                           fs_course = find (\<lambda>c. course_id c = courseId sl) (courses snap),
                           fs_teacher = find (\<lambda>t. teacher_id t = teacherId sl) (teachers snap),
                           fs_room = find (\<lambda>r. room_id r = roomId sl) (rooms snap)\<rparr>)
                 (slots (hd ?E)),
             tt_conflicts = recorded (slots (hd ?E)) snap,
             tt_suggestions =
               concat (map (room_suggestions (rooms snap)) (recorded (slots (hd ?E)) snap)) @
               concat (map (time_suggestions (slots (hd ?E))) (recorded (slots (hd ?E)) snap)),
             tt_fitness = fitness (hd ?E)\<rparr>"
    unfolding k(4) y formatTimetable_evaluated by (rule refl)
  have c: "conflicts (hd ?E) = recorded (slots (hd ?E)) snap"
    unfolding y by (simp add: evaluate_eq)
  have f: "fitness (hd ?E) = max 0 (foldl fl_sub 1 (map penalty (recorded (slots (hd ?E)) snap)))"
    unfolding y by (simp add: evaluate_eq subtract_all_def)
  have b: "\<forall>j<k. \<exists>E'. evaluated_at rnd thr snap j = Some E' \<and> E' \<noteq> [] \<and> fitness (hd E') < thr"
  proof (intro allI impI)
    fix j assume j: "j < k"
    with below obtain st_j where sj: "generation_state rnd thr snap j = Some st_j"
      and lo: "fitness (hd (evaluated snap st_j)) < thr" by blast
    have "length (fst st_j) = populationSize" using generation_state_inv[OF sj] by simp
    then have "evaluated snap st_j \<noteq> []" by (auto simp: evaluated_Nil populationSize_def)
    moreover have "evaluated_at rnd thr snap j = Some (evaluated snap st_j)"
      using j k(1) by (simp add: evaluated_at_eq sj)
    ultimately show "\<exists>E'. evaluated_at rnd thr snap j = Some E' \<and> E' \<noteq> [] \<and> fitness (hd E') < thr"
      using lo by blast
  qed
  have m: "\<forall>j\<le>k. \<forall>E'. evaluated_at rnd thr snap j = Some E' \<longrightarrow>
         (\<forall>x\<in>set E'. fitness x \<le> fitness (hd ?E))"
  proof (intro allI impI ballI)
    fix j E' x
    assume j: "j \<le> k" and E': "evaluated_at rnd thr snap j = Some E'" and x: "x \<in> set E'"
    from generation_chain[OF k(2) j] obtain st_j where
      sj: "generation_state rnd thr snap j = Some st_j" and
      le: "fitness (hd (evaluated snap st_j)) \<le> fitness (hd ?E)" by blast
    have "E' = evaluated snap st_j" using E' j k(1) by (simp add: evaluated_at_eq sj)
    with x have "fitness x \<le> fitness (hd (evaluated snap st_j))" by (simp add: evaluated_best)
    with le show "fitness x \<le> fitness (hd ?E)" by simp
  qed
  have g: "generations = 100" by (simp add: generations_def)
  show ?thesis
    by (rule exI[of _ k], rule exI[of _ ?E]) (intro conjI k(1) g e k(3) a c f k(5) b m)
qed

lemma rnd_zero_index: "random_index rnd_zero pos n = 0"
  by (simp add: random_index_def rnd_zero_draw)

lemma ex_small_slots:
  "random_slots rnd_zero ex_small (courses ex_small) ([], pos) = Inr ([ex_slot1], pos + 3)"
  by (simp add: generateRandomSlot_def rnd_zero_index js_nth_def days_def timeSlots_def
      ex_small_def ex_course1_def ex_teacher1_def ex_room1_def ex_slot1_def)

lemma ex_small_initialize:
  "initializePopulation rnd_zero pos n ex_small =
     Inr (replicate n \<lparr>slots = [ex_slot1], conflicts = [], fitness = 0\<rparr>, pos + 3 * n)"
  by (induction n arbitrary: pos) (simp_all add: ex_small_slots)

lemma ex_small_evaluate:
  "evaluate ex_small \<lparr>slots = [ex_slot1], conflicts = [], fitness = 0\<rparr> =
     \<lparr>slots = [ex_slot1], conflicts = [], fitness = 1\<rparr>"
proof -
  have "recorded [ex_slot1] ex_small = []"
    by (simp add: recorded_def fitness_eval ex_small_def ex_defs)
  then show ?thesis by (simp add: evaluate_eq subtract_all_Nil)
qed

text \<open>
  The search on the smallest snapshot, with the default threshold and every
  draw 0: all individuals of the first population hold the one course on
  Monday from 09:00 in the one room, nothing conflicts, the fitness 1 reaches
  the threshold and generation 0 is the last. That threshold is the double
  0.8, which the double 1 - 0.05 - 0.05 - 0.1 = 0.7999999999999999 does not
  reach: it is the fitness of the individual with two teachers half an hour
  over their limit and one room too small.
\<close>

theorem geneticAlgorithm_returns_best_witness:
  "rooms ex_small \<noteq> [] \<and>
   default_conflictThreshold = 3602879701896397 / 4503599627370496 \<and>
   fl_sub (fl_sub (fl_sub 1 (double_of (1 / 20))) (double_of (1 / 20))) (double_of (1 / 10)) =
     7205759403792793 / 9007199254740992 \<and>
   snd (calculateFitness ex_tight ex_tight_snapshot) = 7205759403792793 / 9007199254740992 \<and>
   snd (calculateFitness ex_tight ex_tight_snapshot) < default_conflictThreshold \<and>
   geneticAlgorithm rnd_zero default_conflictThreshold ex_small 3 ''2024-25'' =
     Inr \<lparr>tt_semester = 3, tt_academicYear = ''2024-25'',
          tt_slots =
            [\<lparr>fs_courseId = ''1'', fs_teacherId = ''1'', fs_roomId = ''1'', fs_dayOfWeek = 1,
              fs_startTime = ''09:00'', fs_endTime = ''10:30'', fs_course = Some ex_course1,
              fs_teacher = Some ex_teacher1, fs_room = Some ex_room1\<rparr>],
          tt_conflicts = [], tt_suggestions = [], tt_fitness = 1\<rparr>"
proof -
  let ?I1 = "\<lparr>slots = [ex_slot1], conflicts = [], fitness = 1\<rparr>"
  let ?thr = default_conflictThreshold
  let ?E0 = "sort_by_fitness (replicate populationSize ?I1)"
  have r: "rooms ex_small \<noteq> []" by (simp add: ex_small_def)
  have t: "?thr = 3602879701896397 / 4503599627370496"
    by (simp add: default_conflictThreshold_def double_vals)
  have v: "fl_sub (fl_sub (fl_sub 1 (double_of (1 / 20))) (double_of (1 / 20))) (double_of (1 / 10)) =
     7205759403792793 / 9007199254740992"
    by (simp add: fl_defs double_vals)
  have e0: "evaluated_at rnd_zero ?thr ex_small 0 = Some ?E0"
    by (simp add: evaluated_at_def generations_def ex_small_initialize evaluated_def
        ex_small_evaluate)
  have p: "0 < populationSize" by (simp add: populationSize_def)
  have ne: "?E0 \<noteq> []" using p by (simp add: sort_by_fitness_Nil)
  then have "hd ?E0 \<in> set ?E0" by simp
  then have h: "hd ?E0 = ?I1" using p by (simp add: set_sort_by_fitness)
  from geneticAlgorithm_returns_best[OF r, of rnd_zero ?thr 3 "''2024-25''"]
  obtain g E where
    g: "evaluated_at rnd_zero ?thr ex_small g = Some E" and
    a: "geneticAlgorithm rnd_zero ?thr ex_small 3 ''2024-25'' =
        Inr \<lparr>tt_semester = 3, tt_academicYear = ''2024-25'',
             tt_slots =
               map (\<lambda>sl. \<lparr>fs_courseId = courseId sl, fs_teacherId = teacherId sl,
                           fs_roomId = roomId sl, fs_dayOfWeek = dayOfWeek sl,
                           fs_startTime = startTime sl, fs_endTime = endTime sl,
                           fs_course = find (\<lambda>c. course_id c = courseId sl) (courses ex_small),
                           fs_teacher = find (\<lambda>t. teacher_id t = teacherId sl) (teachers ex_small),
                           fs_room = find (\<lambda>r. room_id r = roomId sl) (rooms ex_small)\<rparr>)
                 (slots (hd E)),
             tt_conflicts = recorded (slots (hd E)) ex_small,
             tt_suggestions =
               concat (map (room_suggestions (rooms ex_small)) (recorded (slots (hd E)) ex_small)) @
               concat (map (time_suggestions (slots (hd E))) (recorded (slots (hd E)) ex_small)),
             tt_fitness = fitness (hd E)\<rparr>" and
    below: "\<forall>j<g. \<exists>E'. evaluated_at rnd_zero ?thr ex_small j = Some E' \<and> E' \<noteq> [] \<and>
              fitness (hd E') < ?thr"
    by blast
  have g0: "g = 0"
  proof (rule ccontr)
    assume "g \<noteq> 0"
    then have "0 < g" by simp
    with below obtain E' where "evaluated_at rnd_zero ?thr ex_small 0 = Some E'"
      and "fitness (hd E') < ?thr" by blast
    with e0 h have "1 < ?thr" by simp
    with t show False by simp
  qed
  have "E = ?E0" using g e0 unfolding g0 by simp
  then have hd: "hd E = ?I1" using h by simp
  have c: "recorded [ex_slot1] ex_small = []"
    by (simp add: recorded_def fitness_eval ex_small_def ex_defs)
  have s: "geneticAlgorithm rnd_zero ?thr ex_small 3 ''2024-25'' =
     Inr \<lparr>tt_semester = 3, tt_academicYear = ''2024-25'',
          tt_slots =
            [\<lparr>fs_courseId = ''1'', fs_teacherId = ''1'', fs_roomId = ''1'', fs_dayOfWeek = 1,
              fs_startTime = ''09:00'', fs_endTime = ''10:30'', fs_course = Some ex_course1,
              fs_teacher = Some ex_teacher1, fs_room = Some ex_room1\<rparr>],
          tt_conflicts = [], tt_suggestions = [], tt_fitness = 1\<rparr>"
    unfolding a hd by (simp add: c) (simp add: ex_small_def ex_defs)
  have w: "snd (calculateFitness ex_tight ex_tight_snapshot) = 7205759403792793 / 9007199254740992"
    by (simp add: ex_tight_calculateFitness)
  have l: "snd (calculateFitness ex_tight ex_tight_snapshot) < ?thr"
    unfolding w t by simp
  show ?thesis by (intro conjI r t v w l s)
qed

lemma count_one_gene:
  assumes "one_gene_per_course snap ind" and "distinct (map course_id (courses snap))"
    and "c \<in> set (courses snap)"
  shows "length (filter (\<lambda>s. courseId s = course_id c) (slots ind)) =
           (if resolvable snap c then 1 else 0)"
proof -
  have n: "filter (\<lambda>x. course_id x = course_id c) (filter P cs) = []"
    if "course_id c \<notin> course_id ` set cs" for cs :: "course list" and P
    using that by (induction cs) auto
  have d: "distinct (map course_id cs) \<Longrightarrow> c \<in> set cs \<Longrightarrow>
      length (filter (\<lambda>x. course_id x = course_id c) (filter P cs)) = (if P c then 1 else 0)"
    for cs :: "course list" and P
  proof (induction cs)
    case Nil
    then show ?case by simp
  next
    case (Cons a cs)
    show ?case
    proof (cases "a = c")
      case True
      then have "course_id c \<notin> course_id ` set cs" using Cons.prems(1) by auto
      from n[OF this, of P] have
        q: "filter (\<lambda>x. course_id x = course_id c) (filter P (a # cs)) = (if P c then [c] else [])"
        using True by simp
      show ?thesis unfolding q by simp
    next
      case False
      then have m: "c \<in> set cs" using Cons.prems(2) by simp
      then have "course_id a \<noteq> course_id c" using Cons.prems(1) by auto
      then have
        q: "filter (\<lambda>x. course_id x = course_id c) (filter P (a # cs)) =
            filter (\<lambda>x. course_id x = course_id c) (filter P cs)"
        by simp
      have "distinct (map course_id cs)" using Cons.prems(1) by simp
      from Cons.IH[OF this m] show ?thesis unfolding q .
    qed
  qed
  have e: "length (filter (\<lambda>k. k = course_id c) (map course_id xs)) =
           length (filter (\<lambda>x. course_id x = course_id c) xs)" for xs :: "course list"
    by (simp add: filter_map comp_def)
  have "length (filter (\<lambda>s. courseId s = course_id c) (slots ind)) =
        length (filter (\<lambda>k. k = course_id c) (map courseId (slots ind)))"
    by (simp add: filter_map comp_def)
  also have "\<dots> = length (filter (\<lambda>k. k = course_id c)
                       (map course_id (filter (resolvable snap) (courses snap))))"
    using assms(1) by (simp only: one_gene_per_course_def)
  also have "\<dots> = (if resolvable snap c then 1 else 0)"
    unfolding e by (rule d[OF assms(2,3)])
  finally show ?thesis .
qed

text \<open>
  C3. The slots of an individual are for the resolvable courses, one per course
  in course order; a course whose teacher is not in the teacher list has none.
  Initialization establishes this for every individual, crossover of two such
  parents and mutation (which keeps every \<open>courseId\<close>) preserve it, and so it
  holds for every individual of every generation, before and after evaluation.
  With distinct course identifiers it says: exactly one slot per resolvable
  course and none for the others.
\<close>

theorem one_gene_per_course_invariant:
  "(initializePopulation rnd pos n snap = Inr (population, pos') \<longrightarrow>
      (\<forall>ind\<in>set population. one_gene_per_course snap ind)) \<and>
   (one_gene_per_course snap parent1 \<and> one_gene_per_course snap parent2 \<longrightarrow>
      one_gene_per_course snap (fst (crossover rnd pos parent1 parent2))) \<and>
   (mutate rnd pos ind snap = Inr (ind', pos'') \<longrightarrow>
      map courseId (slots ind') = map courseId (slots ind)) \<and>
   (generation_state rnd thr snap g = Some st \<longrightarrow>
      (\<forall>p\<in>set (fst st). one_gene_per_course snap p) \<and>
      (\<forall>p\<in>set (evaluated snap st). one_gene_per_course snap p)) \<and>
   (one_gene_per_course snap ind \<and> distinct (map course_id (courses snap)) \<longrightarrow>
      (\<forall>c\<in>set (courses snap).
         length (filter (\<lambda>s. courseId s = course_id c) (slots ind)) =
           (if resolvable snap c then 1 else 0)))"
proof (intro conjI impI)
  assume "initializePopulation rnd pos n snap = Inr (population, pos')"
  from initializePopulation_genes[OF this]
  show "\<forall>ind\<in>set population. one_gene_per_course snap ind" by simp
next
  assume "one_gene_per_course snap parent1 \<and> one_gene_per_course snap parent2"
  then show "one_gene_per_course snap (fst (crossover rnd pos parent1 parent2))"
    by (simp add: crossover_genes)
next
  assume "mutate rnd pos ind snap = Inr (ind', pos'')"
  then show "map courseId (slots ind') = map courseId (slots ind)" by (rule mutate_courseIds)
next
  assume s: "generation_state rnd thr snap g = Some st"
  from generation_state_inv[OF s]
  show "\<forall>p\<in>set (fst st). one_gene_per_course snap p" by simp
  then show "\<forall>p\<in>set (evaluated snap st). one_gene_per_course snap p"
    by (simp add: evaluated_genes)
next
  assume "one_gene_per_course snap ind \<and> distinct (map course_id (courses snap))"
  then show "\<forall>c\<in>set (courses snap).
         length (filter (\<lambda>s. courseId s = course_id c) (slots ind)) =
           (if resolvable snap c then 1 else 0)"
    by (auto simp: count_one_gene simp del: One_nat_def)
qed

lemma ex_initialize:
  "initializePopulation rnd_zero 0 1 ex_orphan_snapshot =
     Inr ([\<lparr>slots = [ex_slot1], conflicts = [], fitness = 0\<rparr>], 3)"
  by (simp add: One_nat_def generateRandomSlot_def rnd_zero_index js_nth_def days_def
      timeSlots_def ex_orphan_snapshot_def ex_course1_def ex_orphan_course_def ex_teacher1_def
      ex_room1_def ex_slot1_def)

text \<open>Initialization with a course whose teacher is missing: one slot for the other course, none for it.\<close>

theorem one_gene_per_course_invariant_witness:
  "initializePopulation rnd_zero 0 1 ex_orphan_snapshot =
     Inr ([\<lparr>slots = [ex_slot1], conflicts = [], fitness = 0\<rparr>], 3) \<and>
   one_gene_per_course ex_orphan_snapshot \<lparr>slots = [ex_slot1], conflicts = [], fitness = 0\<rparr> \<and>
   distinct (map course_id (courses ex_orphan_snapshot)) \<and>
   resolvable ex_orphan_snapshot ex_course1 \<and> \<not> resolvable ex_orphan_snapshot ex_orphan_course \<and>
   length (filter (\<lambda>s. courseId s = course_id ex_course1) [ex_slot1]) = 1 \<and>
   length (filter (\<lambda>s. courseId s = course_id ex_orphan_course) [ex_slot1]) = 0"
proof -
  let ?ind = "\<lparr>slots = [ex_slot1], conflicts = [], fitness = 0\<rparr>"
  note inv = one_gene_per_course_invariant[where rnd = rnd_zero and pos = 0 and n = 1
      and snap = ex_orphan_snapshot and population = "[?ind]" and pos' = 3]
  have g: "one_gene_per_course ex_orphan_snapshot ?ind"
    using inv ex_initialize by simp
  have d: "distinct (map course_id (courses ex_orphan_snapshot))"
    by (simp add: ex_orphan_snapshot_def ex_course1_def ex_orphan_course_def)
  have r: "resolvable ex_orphan_snapshot ex_course1" "\<not> resolvable ex_orphan_snapshot ex_orphan_course"
    by (simp_all add: resolvable_def ex_orphan_snapshot_def ex_course1_def ex_orphan_course_def
        ex_teacher1_def)
  have c: "length (filter (\<lambda>s. courseId s = course_id ex_course1) [ex_slot1]) = 1"
    "length (filter (\<lambda>s. courseId s = course_id ex_orphan_course) [ex_slot1]) = 0"
    by (simp_all add: ex_course1_def ex_orphan_course_def ex_slot1_def)
  show ?thesis using ex_initialize g d r c by simp
qed

text \<open>
  C7. When the students, the teachers, the courses or the rooms are empty, the
  synthesis fails with the error that names the first empty collection, whatever
  the draws and the threshold (the population is never initialized), no
  timetable is returned or logged, and the log record has status \<open>FAILED\<close>.
  When none of the four is empty, validation passes and the synthesis succeeds
  for every collection of committed entries, the empty one included.
\<close>

theorem validateInputs_empty:
  "(students snap = [] \<or> teachers snap = [] \<or> courses snap = [] \<or> rooms snap = [] \<longrightarrow>
      (\<exists>m. validateInputs (students snap) (teachers snap) (courses snap) (rooms snap) =
              Some (Error m) \<and>
           m = (if students snap = [] then ''No students found''
                else if teachers snap = [] then ''No teachers found''
                else if courses snap = [] then ''No courses found''
                else ''No rooms found'') \<and>
           generateTimetable rnd thr snap semester academicYear =
             (Inl (Error m),
              \<lparr>log_operation = ''GENERATE'', log_outputData = None, log_conflicts = [],
               log_suggestions = [], log_status = FAILED\<rparr>))) \<and>
   (students snap \<noteq> [] \<and> teachers snap \<noteq> [] \<and> courses snap \<noteq> [] \<and> rooms snap \<noteq> [] \<longrightarrow>
      validateInputs (students snap) (teachers snap) (courses snap) (rooms snap) = None \<and>
      (\<exists>t. generateTimetable rnd thr snap semester academicYear =
             (Inr \<lparr>success = True, r_timetable = t, r_conflicts = tt_conflicts t,
                   r_suggestions = tt_suggestions t\<rparr>,
              \<lparr>log_operation = ''GENERATE'', log_outputData = Some t,
               log_conflicts = tt_conflicts t, log_suggestions = tt_suggestions t,
               log_status = SUCCESS\<rparr>)))"
proof (intro conjI impI)
  assume "students snap = [] \<or> teachers snap = [] \<or> courses snap = [] \<or> rooms snap = []"
  then show "\<exists>m. validateInputs (students snap) (teachers snap) (courses snap) (rooms snap) =
              Some (Error m) \<and>
           m = (if students snap = [] then ''No students found''
                else if teachers snap = [] then ''No teachers found''
                else if courses snap = [] then ''No courses found''
                else ''No rooms found'') \<and>
           generateTimetable rnd thr snap semester academicYear =
             (Inl (Error m),
              \<lparr>log_operation = ''GENERATE'', log_outputData = None, log_conflicts = [],
               log_suggestions = [], log_status = FAILED\<rparr>)"
    by (auto simp: validateInputs_def generateTimetable_def logAIOperation_def)
next
  assume a: "students snap \<noteq> [] \<and> teachers snap \<noteq> [] \<and> courses snap \<noteq> [] \<and> rooms snap \<noteq> []"
  then show v: "validateInputs (students snap) (teachers snap) (courses snap) (rooms snap) = None"
    by (simp add: validateInputs_def)
  from a have "rooms snap \<noteq> []" by simp
  from geneticAlgorithm_outcome[OF this, of rnd thr semester academicYear]
  obtain t where "geneticAlgorithm rnd thr snap semester academicYear = Inr t" by blast
  then show "\<exists>t. generateTimetable rnd thr snap semester academicYear =
             (Inr \<lparr>success = True, r_timetable = t, r_conflicts = tt_conflicts t,
                   r_suggestions = tt_suggestions t\<rparr>,
              \<lparr>log_operation = ''GENERATE'', log_outputData = Some t,
               log_conflicts = tt_conflicts t, log_suggestions = tt_suggestions t,
               log_status = SUCCESS\<rparr>)"
    by (simp add: generateTimetable_def v logAIOperation_def)
qed

text \<open>The smallest snapshot without students, and as it is (no committed entries).\<close>

theorem validateInputs_empty_witness:
  "students (ex_small\<lparr>students := []\<rparr>) = [] \<and>
   generateTimetable rnd_zero (8 / 10) (ex_small\<lparr>students := []\<rparr>) 3 ''2024-25'' =
     (Inl (Error ''No students found''),
      \<lparr>log_operation = ''GENERATE'', log_outputData = None, log_conflicts = [],
       log_suggestions = [], log_status = FAILED\<rparr>) \<and>
   students ex_small \<noteq> [] \<and> teachers ex_small \<noteq> [] \<and> courses ex_small \<noteq> [] \<and>
   rooms ex_small \<noteq> [] \<and> existingTimetables ex_small = [] \<and>
   (\<exists>t. fst (generateTimetable rnd_zero (8 / 10) ex_small 3 ''2024-25'') =
          Inr \<lparr>success = True, r_timetable = t, r_conflicts = tt_conflicts t,
                r_suggestions = tt_suggestions t\<rparr>)"
proof -
  have e: "students (ex_small\<lparr>students := []\<rparr>) = []" by simp
  have n: "students ex_small \<noteq> [] \<and> teachers ex_small \<noteq> [] \<and> courses ex_small \<noteq> [] \<and>
     rooms ex_small \<noteq> []" "existingTimetables ex_small = []"
    by (simp_all add: ex_small_def)
  from validateInputs_empty[of "ex_small\<lparr>students := []\<rparr>" rnd_zero "8 / 10" 3 "''2024-25''"] e
  have 1: "generateTimetable rnd_zero (8 / 10) (ex_small\<lparr>students := []\<rparr>) 3 ''2024-25'' =
     (Inl (Error ''No students found''),
      \<lparr>log_operation = ''GENERATE'', log_outputData = None, log_conflicts = [],
       log_suggestions = [], log_status = FAILED\<rparr>)" by simp
  from validateInputs_empty[of ex_small rnd_zero "8 / 10" 3 "''2024-25''"] n
  have 2: "\<exists>t. fst (generateTimetable rnd_zero (8 / 10) ex_small 3 ''2024-25'') =
          Inr \<lparr>success = True, r_timetable = t, r_conflicts = tt_conflicts t,
                r_suggestions = tt_suggestions t\<rparr>" by auto
  show ?thesis using e n 1 2 by simp
qed

end
